theory Spec2Isabelle
  imports Complex_Main
begin

section \<open>JavaScript numbers\<close>

text \<open>
  A JavaScript number is an IEEE double. It is modelled by its exact value: a finite
  number is a real, and the three non-finite values are constructors of their own.
  The operations of this section are exact on finite values (rounding, overflow and the
  sign of zero are not modelled); every operation treats \<open>NaN\<close> and the infinities as
  ECMAScript does. The addition \<open>dadd\<close> of the containment test, defined with it, is the
  rounded one.
\<close>

datatype jsnum = Fin real | PInf | NInf | NaN

text \<open>\<^verbatim>\<open>Number.isFinite\<close>\<close>

fun isFinite :: "jsnum \<Rightarrow> bool" where
  "isFinite (Fin r) = True"
| "isFinite PInf = False"
| "isFinite NInf = False"
| "isFinite NaN = False"

text \<open>\<^verbatim>\<open>a === b\<close> on numbers: \<open>NaN\<close> is equal to nothing, itself included.\<close>

fun jeq :: "jsnum \<Rightarrow> jsnum \<Rightarrow> bool" where
  "jeq (Fin a) (Fin b) = (a = b)"
| "jeq PInf PInf = True"
| "jeq NInf NInf = True"
| "jeq _ _ = False"

text \<open>\<^verbatim>\<open>a < b\<close>, \<^verbatim>\<open>a <= b\<close>, \<^verbatim>\<open>a > b\<close>, \<^verbatim>\<open>a >= b\<close>: false whenever an operand is \<open>NaN\<close>.\<close>

fun jlt :: "jsnum \<Rightarrow> jsnum \<Rightarrow> bool" where
  "jlt (Fin a) (Fin b) = (a < b)"
| "jlt (Fin a) PInf = True"
| "jlt NInf (Fin b) = True"
| "jlt NInf PInf = True"
| "jlt _ _ = False"

definition jle :: "jsnum \<Rightarrow> jsnum \<Rightarrow> bool" where
  "jle a b = (jlt a b \<or> jeq a b)"

definition jgt :: "jsnum \<Rightarrow> jsnum \<Rightarrow> bool" where
  "jgt a b = jlt b a"

definition jge :: "jsnum \<Rightarrow> jsnum \<Rightarrow> bool" where
  "jge a b = jle b a"

fun jneg :: "jsnum \<Rightarrow> jsnum" where
  "jneg (Fin a) = Fin (- a)"
| "jneg PInf = NInf"
| "jneg NInf = PInf"
| "jneg NaN = NaN"

fun jadd :: "jsnum \<Rightarrow> jsnum \<Rightarrow> jsnum" where
  "jadd (Fin a) (Fin b) = Fin (a + b)"
| "jadd NaN _ = NaN"
| "jadd _ NaN = NaN"
| "jadd PInf NInf = NaN"
| "jadd NInf PInf = NaN"
| "jadd PInf _ = PInf"
| "jadd _ PInf = PInf"
| "jadd NInf _ = NInf"
| "jadd _ NInf = NInf"

definition jsub :: "jsnum \<Rightarrow> jsnum \<Rightarrow> jsnum" where
  "jsub a b = jadd a (jneg b)"

text \<open>The sign of an infinite product, or \<open>NaN\<close> for zero times infinity.\<close>

definition signedInf :: "real \<Rightarrow> jsnum" where
  "signedInf s = (if s = 0 then NaN else if 0 < s then PInf else NInf)"

fun jmul :: "jsnum \<Rightarrow> jsnum \<Rightarrow> jsnum" where
  "jmul (Fin a) (Fin b) = Fin (a * b)"
| "jmul NaN _ = NaN"
| "jmul _ NaN = NaN"
| "jmul (Fin a) PInf = signedInf a"
| "jmul (Fin a) NInf = signedInf (- a)"
| "jmul PInf (Fin b) = signedInf b"
| "jmul NInf (Fin b) = signedInf (- b)"
| "jmul PInf PInf = PInf"
| "jmul NInf NInf = PInf"
| "jmul PInf NInf = NInf"
| "jmul NInf PInf = NInf"

text \<open>Division; a zero divisor is taken as positive zero.\<close>

fun jdiv :: "jsnum \<Rightarrow> jsnum \<Rightarrow> jsnum" where
  "jdiv (Fin a) (Fin b) = (if b = 0 then signedInf a else Fin (a / b))"
| "jdiv NaN _ = NaN"
| "jdiv _ NaN = NaN"
| "jdiv (Fin a) PInf = Fin 0"
| "jdiv (Fin a) NInf = Fin 0"
| "jdiv PInf (Fin b) = (if 0 \<le> b then PInf else NInf)"
| "jdiv NInf (Fin b) = (if 0 \<le> b then NInf else PInf)"
| "jdiv PInf PInf = NaN"
| "jdiv PInf NInf = NaN"
| "jdiv NInf PInf = NaN"
| "jdiv NInf NInf = NaN"

text \<open>\<^verbatim>\<open>a % b\<close>: the remainder of the truncated quotient, with the sign of \<open>a\<close>.\<close>

definition truncQuot :: "real \<Rightarrow> real \<Rightarrow> int" where
  "truncQuot a b = (if 0 \<le> a / b then \<lfloor>a / b\<rfloor> else \<lceil>a / b\<rceil>)"

fun jmod :: "jsnum \<Rightarrow> jsnum \<Rightarrow> jsnum" where
  "jmod (Fin a) (Fin b) = (if b = 0 then NaN else Fin (a - b * of_int (truncQuot a b)))"
| "jmod (Fin a) PInf = Fin a"
| "jmod (Fin a) NInf = Fin a"
| "jmod _ _ = NaN"

text \<open>\<^verbatim>\<open>Math.max\<close>, \<^verbatim>\<open>Math.min\<close>, \<^verbatim>\<open>Math.abs\<close>, \<^verbatim>\<open>Math.round\<close> (halves go up),
  \<^verbatim>\<open>Math.cos\<close>, \<^verbatim>\<open>Math.sin\<close>.\<close>

fun jmax :: "jsnum \<Rightarrow> jsnum \<Rightarrow> jsnum" where
  "jmax NaN _ = NaN"
| "jmax _ NaN = NaN"
| "jmax a b = (if jlt a b then b else a)"

fun jmin :: "jsnum \<Rightarrow> jsnum \<Rightarrow> jsnum" where
  "jmin NaN _ = NaN"
| "jmin _ NaN = NaN"
| "jmin a b = (if jlt b a then b else a)"

fun jabs :: "jsnum \<Rightarrow> jsnum" where
  "jabs (Fin a) = Fin \<bar>a\<bar>"
| "jabs PInf = PInf"
| "jabs NInf = PInf"
| "jabs NaN = NaN"

fun jround :: "jsnum \<Rightarrow> jsnum" where
  "jround (Fin a) = Fin (of_int \<lfloor>a + 1 / 2\<rfloor>)"
| "jround PInf = PInf"
| "jround NInf = NInf"
| "jround NaN = NaN"

fun jcos :: "jsnum \<Rightarrow> jsnum" where
  "jcos (Fin a) = Fin (cos a)"
| "jcos _ = NaN"

fun jsin :: "jsnum \<Rightarrow> jsnum" where
  "jsin (Fin a) = Fin (sin a)"
| "jsin _ = NaN"

text \<open>Truthiness of a number: \<open>0\<close> and \<open>NaN\<close> are falsy. \<^verbatim>\<open>a || b\<close> on numbers.\<close>

fun truthy :: "jsnum \<Rightarrow> bool" where
  "truthy (Fin a) = (a \<noteq> 0)"
| "truthy NaN = False"
| "truthy _ = True"

definition jor :: "jsnum \<Rightarrow> jsnum \<Rightarrow> jsnum" where
  "jor a b = (if truthy a then a else b)"

section \<open>The document store (lib/store.ts)\<close>

datatype PanelKey =
  PanelPdf | PanelAddImage | PanelShapes | PanelAddText | PanelBlocks | PanelProject
  | PanelMore | PanelZoomReset

definition MIN_ZOOM :: jsnum where "MIN_ZOOM = Fin (1 / 2)"
definition MAX_ZOOM :: jsnum where "MAX_ZOOM = Fin (5 / 2)"
definition ZOOM_STEP :: jsnum where "ZOOM_STEP = Fin (1 / 10)"

record ImageAsset =
  image_id :: string
  image_name :: string
  image_url :: string

record PdfAsset =
  pdf_id :: string
  pdf_name :: string
  pdf_url :: string

text \<open>
  A field value of a node's data. Primitives are compared by value; any other value
  (array, nested object) is a reference, compared by identity as \<^verbatim>\<open>===\<close> does.
\<close>

datatype jsval =
  JUndefined | JNull | JBool bool | JNumber jsnum | JString string | JObject nat

text \<open>
  An object is the list of its keys and values in insertion order. A node's \<^verbatim>\<open>data\<close> may
  be missing (\<^verbatim>\<open>data?: Record<string, unknown>\<close> of the open variant): \<open>None\<close>.
\<close>

type_synonym jsobj = "(string \<times> jsval) list"

record DocumentNode =
  node_id :: string
  node_type :: string
  node_data :: "jsobj option"

datatype PendingPlacement =
  PlaceImage string
  | PlacePdf string jsnum string jsnum jsnum

record Assets =
  images :: "ImageAsset list"
  pdfs :: "PdfAsset list"

record DocumentState =
  openPanel :: "PanelKey option"
  zoom :: jsnum
  rotation :: jsnum
  nodes :: "DocumentNode list"
  selection :: "string list"
  isPropertiesPanelOpen :: bool
  showBoundingBox :: bool
  showTransparencyGrid :: bool
  isPrintPreview :: bool
  assets :: Assets
  past :: "DocumentNode list list"
  future :: "DocumentNode list list"
  pendingPlacement :: "PendingPlacement option"

text \<open>
  \<^verbatim>\<open>cloneNode\<close> copies the node and, when \<^verbatim>\<open>data\<close> is an object, its data object
  (one level deep). A copy has the same keys in the same order with the same values.
\<close>

definition cloneNode :: "DocumentNode \<Rightarrow> DocumentNode" where
  "cloneNode node =
     \<lparr> node_id = node_id node, node_type = node_type node,
       node_data = (case node_data node of Some d \<Rightarrow> Some (map (\<lambda>kv. kv) d) | None \<Rightarrow> None) \<rparr>"

definition cloneNodes :: "DocumentNode list \<Rightarrow> DocumentNode list" where
  "cloneNodes ns = map cloneNode ns"

definition normalizeZoom :: "jsnum \<Rightarrow> jsnum" where
  "normalizeZoom v =
     (let rounded = jdiv (jround (jmul v (Fin 100))) (Fin 100)
      in jmin MAX_ZOOM (jmax MIN_ZOOM rounded))"

text \<open>\<^verbatim>\<open>obj[key]\<close>: a missing key reads as \<^verbatim>\<open>undefined\<close>.\<close>

definition getField :: "jsobj \<Rightarrow> string \<Rightarrow> jsval" where
  "getField obj k = (case map_of obj k of Some v \<Rightarrow> v | None \<Rightarrow> JUndefined)"

text \<open>\<^verbatim>\<open>a !== b\<close> on field values.\<close>

fun strictNeq :: "jsval \<Rightarrow> jsval \<Rightarrow> bool" where
  "strictNeq (JNumber a) (JNumber b) = (\<not> jeq a b)"
| "strictNeq a b = (a \<noteq> b)"

text \<open>
  \<^verbatim>\<open>{ ...base, ...src }\<close>: a key of \<open>src\<close> that \<open>base\<close> has keeps its place and
  takes the new value; a new key is appended.
\<close>

fun setField :: "string \<Rightarrow> jsval \<Rightarrow> jsobj \<Rightarrow> jsobj" where
  "setField k v [] = [(k, v)]"
| "setField k v (p # ps) = (if fst p = k then (k, v) # ps else p # setField k v ps)"

fun objectSpread :: "jsobj \<Rightarrow> jsobj \<Rightarrow> jsobj" where
  "objectSpread base [] = base"
| "objectSpread base (p # ps) = objectSpread (setField (fst p) (snd p) base) ps"

text \<open>
  \<^verbatim>\<open>hasShallowChanges(prev, next)\<close>. The first argument says whether \<open>next\<close> is the
  very object \<open>prev\<close> is (reference identity, which the values alone cannot tell).
\<close>

definition hasShallowChanges :: "bool \<Rightarrow> jsobj option \<Rightarrow> jsobj option \<Rightarrow> bool" where
  "hasShallowChanges sameRef prev next =
     (if sameRef \<or> (prev = None \<and> next = None) then False
      else case (prev, next) of
        (Some p, Some n) \<Rightarrow>
          list_ex (\<lambda>k. strictNeq (getField p k) (getField n k)) (map fst p @ map fst n)
      | _ \<Rightarrow> True)"

definition initialState :: DocumentState where
  "initialState =
     \<lparr> openPanel = None, zoom = Fin 1, rotation = Fin 0, nodes = [], selection = [],
       isPropertiesPanelOpen = False, showBoundingBox = True, showTransparencyGrid = False,
       isPrintPreview = False, assets = \<lparr> images = [], pdfs = [] \<rparr>, past = [], future = [],
       pendingPlacement = None \<rparr>"

definition setOpenPanel :: "PanelKey option \<Rightarrow> DocumentState \<Rightarrow> DocumentState" where
  "setOpenPanel panel state = state\<lparr>openPanel := panel\<rparr>"

definition setZoom :: "jsnum \<Rightarrow> DocumentState \<Rightarrow> DocumentState" where
  "setZoom z state =
     (let nextZoom = normalizeZoom z
      in if jeq nextZoom (zoom state) then state else state\<lparr>zoom := nextZoom\<rparr>)"

definition zoomIn :: "DocumentState \<Rightarrow> DocumentState" where
  "zoomIn state =
     (let nextZoom = normalizeZoom (jadd (zoom state) ZOOM_STEP)
      in if jeq nextZoom (zoom state) then state else state\<lparr>zoom := nextZoom\<rparr>)"

definition zoomOut :: "DocumentState \<Rightarrow> DocumentState" where
  "zoomOut state =
     (let nextZoom = normalizeZoom (jsub (zoom state) ZOOM_STEP)
      in if jeq nextZoom (zoom state) then state else state\<lparr>zoom := nextZoom\<rparr>)"

definition resetZoom :: "DocumentState \<Rightarrow> DocumentState" where
  "resetZoom state = state\<lparr>zoom := Fin 1\<rparr>"

definition rotateCanvasLeft :: "DocumentState \<Rightarrow> DocumentState" where
  "rotateCanvasLeft state =
     (let nextRotation =
            jmod (jadd (jmod (jsub (rotation state) (Fin 90)) (Fin 360)) (Fin 360)) (Fin 360)
      in if jeq nextRotation (rotation state) then state
         else state\<lparr>rotation := nextRotation\<rparr>)"

definition rotateCanvasRight :: "DocumentState \<Rightarrow> DocumentState" where
  "rotateCanvasRight state =
     (let nextRotation =
            jmod (jadd (jmod (jadd (rotation state) (Fin 90)) (Fin 360)) (Fin 360)) (Fin 360)
      in if jeq nextRotation (rotation state) then state
         else state\<lparr>rotation := nextRotation\<rparr>)"

text \<open>
  One step of the \<^verbatim>\<open>map\<close> in \<^verbatim>\<open>rotateSelectionClockwise\<close>: the node as it comes out,
  and whether this step set \<^verbatim>\<open>hasUpdates\<close>.
\<close>

definition rotateNode :: "string list \<Rightarrow> DocumentNode \<Rightarrow> DocumentNode \<times> bool" where
  "rotateNode sel node =
     (if node_id node \<notin> set sel then (node, False)
      else case node_data node of
        None \<Rightarrow> (node, False)
      | Some d \<Rightarrow>
          if ''rotation'' \<notin> set (map fst d) then (node, False)
          else
            let currentRotation =
                  (case getField d ''rotation'' of JNumber r \<Rightarrow> r | _ \<Rightarrow> Fin 0);
                nextRotation =
                  jmod (jadd (jmod (jadd currentRotation (Fin 90)) (Fin 360)) (Fin 360))
                    (Fin 360)
            in if jeq nextRotation currentRotation then (node, False)
               else (node\<lparr>node_data := Some (setField ''rotation'' (JNumber nextRotation) d)\<rparr>,
                     True))"

definition rotateSelectionClockwise :: "DocumentState \<Rightarrow> DocumentState" where
  "rotateSelectionClockwise state =
     (if selection state = [] then state
      else
        let results = map (rotateNode (selection state)) (nodes state);
            nextNodes = map fst results;
            hasUpdates = list_ex snd results
        in if \<not> hasUpdates then state
           else state\<lparr>nodes := cloneNodes nextNodes,
                      past := past state @ [cloneNodes (nodes state)],
                      future := []\<rparr>)"

definition setRotation :: "jsnum \<Rightarrow> DocumentState \<Rightarrow> DocumentState" where
  "setRotation r state = state\<lparr>rotation := r\<rparr>"

definition setNodes :: "DocumentNode list \<Rightarrow> DocumentState \<Rightarrow> DocumentState" where
  "setNodes ns state =
     state\<lparr>nodes := cloneNodes ns,
           past := past state @ [cloneNodes (nodes state)],
           future := []\<rparr>"

definition setSelection :: "string list \<Rightarrow> DocumentState \<Rightarrow> DocumentState" where
  "setSelection sel state = state\<lparr>selection := sel\<rparr>"

definition addNode :: "DocumentNode \<Rightarrow> DocumentState \<Rightarrow> DocumentState" where
  "addNode node state =
     state\<lparr>nodes := nodes state @ [cloneNode node],
           past := past state @ [cloneNodes (nodes state)],
           future := []\<rparr>"

definition deleteSelection :: "DocumentState \<Rightarrow> DocumentState" where
  "deleteSelection state =
     (if selection state = [] then state
      else
        let remainingNodes = filter (\<lambda>node. node_id node \<notin> set (selection state)) (nodes state)
        in if length remainingNodes = length (nodes state) then state
           else state\<lparr>nodes := cloneNodes remainingNodes,
                      past := past state @ [cloneNodes (nodes state)],
                      future := [],
                      selection := [],
                      isPropertiesPanelOpen := False\<rparr>)"

definition undo :: "DocumentState \<Rightarrow> DocumentState" where
  "undo state =
     (if past state = [] then state
      else
        let previous = last (past state);
            updatedPast = butlast (past state)
        in state\<lparr>nodes := cloneNodes previous,
                 past := updatedPast,
                 future := cloneNodes (nodes state) # future state,
                 selection := []\<rparr>)"

definition redo :: "DocumentState \<Rightarrow> DocumentState" where
  "redo state =
     (case future state of
        [] \<Rightarrow> state
      | next # rest \<Rightarrow>
          state\<lparr>nodes := cloneNodes next,
                past := past state @ [cloneNodes (nodes state)],
                future := rest,
                selection := []\<rparr>)"

text \<open>\<^verbatim>\<open>Array.prototype.findIndex\<close>; \<open>None\<close> is the \<open>-1\<close> of the source.\<close>

fun findIndex :: "('a \<Rightarrow> bool) \<Rightarrow> 'a list \<Rightarrow> nat option" where
  "findIndex P [] = None"
| "findIndex P (x # xs) = (if P x then Some 0 else map_option Suc (findIndex P xs))"

text \<open>
  The second argument of \<^verbatim>\<open>updateNode\<close>: a partial object to merge, or a function of
  the node's data. A function returns either the object it was given or another value.
\<close>

datatype fnresult = SameObject | Returned "jsobj option"

datatype updates = Partial jsobj | Updater "jsobj option \<Rightarrow> fnresult"

text \<open>
  \<^verbatim>\<open>updateNode(nodeId, updates, options)\<close>. The last argument is \<^verbatim>\<open>options?.commit\<close>:
  \<open>None\<close> when no option or no \<^verbatim>\<open>commit\<close> is given.
\<close>

definition updateNode ::
  "string \<Rightarrow> updates \<Rightarrow> bool option \<Rightarrow> DocumentState \<Rightarrow> DocumentState" where
  "updateNode nodeId upd commit state =
     (case findIndex (\<lambda>node. node_id node = nodeId) (nodes state) of
        None \<Rightarrow> state
      | Some index \<Rightarrow>
          let node = nodes state ! index;
              baseData = (case node_data node of Some d \<Rightarrow> d | None \<Rightarrow> []);
              (sameRef, nextData) =
                (case upd of
                   Partial u \<Rightarrow> (False, Some (objectSpread baseData u))
                 | Updater f \<Rightarrow>
                     (case f (node_data node) of
                        SameObject \<Rightarrow> (True, node_data node)
                      | Returned d \<Rightarrow> (False, d)))
          in if \<not> hasShallowChanges sameRef (node_data node) nextData then state
             else
               let nextNodes = (nodes state)[index := node\<lparr>node_data := nextData\<rparr>]
               in if commit = Some False then state\<lparr>nodes := cloneNodes nextNodes\<rparr>
                  else state\<lparr>nodes := cloneNodes nextNodes,
                             past := past state @ [cloneNodes (nodes state)],
                             future := []\<rparr>)"

text \<open>
  \<^verbatim>\<open>state.selection[state.selection.length - 1]\<close>, with \<^verbatim>\<open>!selectedId\<close> folded in:
  \<open>None\<close> when the selection is empty or its last id is the empty string.
\<close>

definition primarySelection :: "string list \<Rightarrow> string option" where
  "primarySelection sel =
     (if sel = [] then None else if last sel = [] then None else Some (last sel))"

definition bringSelectionToFront :: "DocumentState \<Rightarrow> DocumentState" where
  "bringSelectionToFront state =
     (case primarySelection (selection state) of
        None \<Rightarrow> state
      | Some selectedId \<Rightarrow>
          (case findIndex (\<lambda>node. node_id node = selectedId) (nodes state) of
             None \<Rightarrow> state
           | Some index \<Rightarrow>
               if index = length (nodes state) - 1 then state
               else
                 let node = nodes state ! index;
                     nextNodes = take index (nodes state) @ drop (Suc index) (nodes state) @ [node]
                 in state\<lparr>nodes := cloneNodes nextNodes,
                          past := past state @ [cloneNodes (nodes state)],
                          future := []\<rparr>))"

definition sendSelectionBackward :: "DocumentState \<Rightarrow> DocumentState" where
  "sendSelectionBackward state =
     (case primarySelection (selection state) of
        None \<Rightarrow> state
      | Some selectedId \<Rightarrow>
          (case findIndex (\<lambda>node. node_id node = selectedId) (nodes state) of
             None \<Rightarrow> state
           | Some index \<Rightarrow>
               if index = 0 then state
               else
                 let node = nodes state ! index;
                     removed = take index (nodes state) @ drop (Suc index) (nodes state);
                     nextNodes = take (index - 1) removed @ [node] @ drop (index - 1) removed
                 in state\<lparr>nodes := cloneNodes nextNodes,
                          past := past state @ [cloneNodes (nodes state)],
                          future := []\<rparr>))"

text \<open>The edits of the scene graph, and the view-level setters, as commands.\<close>

datatype edit =
  SetNodes "DocumentNode list"
  | AddNode DocumentNode
  | DeleteSelection
  | UpdateNode string updates "bool option"
  | RotateSelectionClockwise
  | BringSelectionToFront
  | SendSelectionBackward

fun applyEdit :: "edit \<Rightarrow> DocumentState \<Rightarrow> DocumentState" where
  "applyEdit (SetNodes ns) state = setNodes ns state"
| "applyEdit (AddNode n) state = addNode n state"
| "applyEdit DeleteSelection state = deleteSelection state"
| "applyEdit (UpdateNode i u c) state = updateNode i u c state"
| "applyEdit RotateSelectionClockwise state = rotateSelectionClockwise state"
| "applyEdit BringSelectionToFront state = bringSelectionToFront state"
| "applyEdit SendSelectionBackward state = sendSelectionBackward state"

text \<open>An edit commits unless it is an \<^verbatim>\<open>updateNode\<close> called with \<^verbatim>\<open>commit: false\<close>.\<close>

fun committing :: "edit \<Rightarrow> bool" where
  "committing (UpdateNode i u c) = (c \<noteq> Some False)"
| "committing _ = True"

fun applyEdits :: "edit list \<Rightarrow> DocumentState \<Rightarrow> DocumentState" where
  "applyEdits [] state = state"
| "applyEdits (e # es) state = applyEdits es (applyEdit e state)"

datatype viewOp =
  SetZoom jsnum | ZoomIn | ZoomOut | ResetZoom | SetRotation jsnum
  | RotateCanvasLeft | RotateCanvasRight

fun applyViewOp :: "viewOp \<Rightarrow> DocumentState \<Rightarrow> DocumentState" where
  "applyViewOp (SetZoom z) state = setZoom z state"
| "applyViewOp ZoomIn state = zoomIn state"
| "applyViewOp ZoomOut state = zoomOut state"
| "applyViewOp ResetZoom state = resetZoom state"
| "applyViewOp (SetRotation r) state = setRotation r state"
| "applyViewOp RotateCanvasLeft state = rotateCanvasLeft state"
| "applyViewOp RotateCanvasRight state = rotateCanvasRight state"

fun applyViewOps :: "viewOp list \<Rightarrow> DocumentState \<Rightarrow> DocumentState" where
  "applyViewOps [] state = state"
| "applyViewOps (v # vs) state = applyViewOps vs (applyViewOp v state)"

text \<open>
  The timeline of a state: its past snapshots followed by its current nodes.
\<close>

definition hist :: "DocumentState \<Rightarrow> DocumentNode list list" where
  "hist st = past st @ [nodes st]"

text \<open>Every edit of the list, applied in order, pushes one entry on \<open>past\<close>.\<close>

fun allPush :: "edit list \<Rightarrow> DocumentState \<Rightarrow> bool" where
  "allPush [] st = True"
| "allPush (e # es) st =
     (length (past (applyEdit e st)) = Suc (length (past st)) \<and> allPush es (applyEdit e st))"

text \<open>A gesture's live updates: \<^verbatim>\<open>updateNode\<close> with \<^verbatim>\<open>commit: false\<close>, once per update.\<close>

definition liveUpdates :: "string \<Rightarrow> updates list \<Rightarrow> DocumentState \<Rightarrow> DocumentState" where
  "liveUpdates nodeId us state = fold (\<lambda>u. updateNode nodeId u (Some False)) us state"

text \<open>
  A zoom in \<open>[0.5, 2.5]\<close> with at most two decimal places; and a list of view operations
  none of whose \<^verbatim>\<open>setZoom\<close> arguments is \<open>NaN\<close>.
\<close>

definition zoomInRange :: "jsnum \<Rightarrow> bool" where
  "zoomInRange z =
     (case z of
        Fin r \<Rightarrow> 1 / 2 \<le> r \<and> r \<le> 5 / 2 \<and> r * 100 = of_int \<lfloor>r * 100\<rfloor>
      | _ \<Rightarrow> False)"

fun zoomOps :: "viewOp list \<Rightarrow> bool" where
  "zoomOps [] = True"
| "zoomOps (SetZoom z # vs) = (z \<noteq> NaN \<and> zoomOps vs)"
| "zoomOps (v # vs) = zoomOps vs"

section \<open>Containment in the dieline (lib/dieline.ts)\<close>

text \<open>
  The four fields of \<^verbatim>\<open>DielineDocument\<close> that \<^verbatim>\<open>isInsideDieline\<close> picks, and
  \<^verbatim>\<open>RectBounds\<close>.
\<close>

record DielineFrame =
  dieline_x :: jsnum
  dieline_y :: jsnum
  dieline_width :: jsnum
  dieline_height :: jsnum

record RectBounds =
  rect_x :: jsnum
  rect_y :: jsnum
  rect_width :: jsnum
  rect_height :: jsnum

text \<open>
  The comparisons of \<^verbatim>\<open>isInsideDieline\<close> decide between sums that may differ by less than
  a rounding error, so its additions are the additions of doubles: the exact sum rounded
  to the nearest double, ties to the even significand, and to an infinity from
  \<open>2 ^ 1024 - 2 ^ 970\<close> on. \<open>binade r\<close> is the exponent of the binade of \<open>r\<close> (\<open>- 1022\<close> for
  the subnormal numbers), \<open>ulp r\<close> the distance between neighbouring doubles there, with
  53 bits of significand.
\<close>

definition binade :: "real \<Rightarrow> int" where
  "binade r = max (- 1022) \<lfloor>log 2 \<bar>r\<bar>\<rfloor>"

definition ulp :: "real \<Rightarrow> real" where
  "ulp r = 2 powr of_int (binade r - 52)"

definition roundHalfEven :: "real \<Rightarrow> int" where
  "roundHalfEven q =
     (let f = \<lfloor>q\<rfloor>; d = q - of_int f
      in if d < 1 / 2 then f else if 1 / 2 < d then f + 1 else if even f then f else f + 1)"

definition nearest :: "real \<Rightarrow> real" where
  "nearest r = (if r = 0 then 0 else of_int (roundHalfEven (r / ulp r)) * ulp r)"

definition round64 :: "real \<Rightarrow> jsnum" where
  "round64 r =
     (let v = nearest r
      in if 2 ^ 1024 \<le> v then PInf else if v \<le> - (2 ^ 1024) then NInf else Fin v)"

text \<open>\<^verbatim>\<open>a + b\<close> on doubles: the exact sum, rounded.\<close>

definition dadd :: "jsnum \<Rightarrow> jsnum \<Rightarrow> jsnum" where
  "dadd a b = (case jadd a b of Fin s \<Rightarrow> round64 s | v \<Rightarrow> v)"

definition isInsideDieline :: "DielineFrame \<Rightarrow> RectBounds \<Rightarrow> bool" where
  "isInsideDieline dieline nodeBounds =
     (if jle (rect_width nodeBounds) (Fin 0) \<or> jle (rect_height nodeBounds) (Fin 0) then True
      else
        let dielineLeft = dieline_x dieline;
            dielineTop = dieline_y dieline;
            dielineRight = dadd (dieline_x dieline) (dieline_width dieline);
            dielineBottom = dadd (dieline_y dieline) (dieline_height dieline);
            nodeLeft = rect_x nodeBounds;
            nodeTop = rect_y nodeBounds;
            nodeRight = dadd (rect_x nodeBounds) (rect_width nodeBounds);
            nodeBottom = dadd (rect_y nodeBounds) (rect_height nodeBounds)
        in jge nodeLeft dielineLeft \<and> jge nodeTop dielineTop
           \<and> jle nodeRight dielineRight \<and> jle nodeBottom dielineBottom)"

section \<open>The box layout and the preview store (lib/boxLayoutConfig.ts, lib/previewStore.ts)\<close>

datatype BoxFaceKey = FaceFront | FaceBack | FaceLeft | FaceRight | FaceTop | FaceBottom

record FaceRectangle =
  face_x :: jsnum
  face_y :: jsnum
  face_width :: jsnum
  face_height :: jsnum

record BoxFaceConfig =
  cfg_key :: BoxFaceKey
  cfg_label :: string
  cfg_rect :: FaceRectangle
  cfg_materialIndex :: nat

definition BOX_FACE_ORDER :: "BoxFaceKey list" where
  "BOX_FACE_ORDER = [FaceFront, FaceRight, FaceBack, FaceLeft, FaceTop, FaceBottom]"

fun BOX_FACE_CONFIG :: "BoxFaceKey \<Rightarrow> BoxFaceConfig" where
  "BOX_FACE_CONFIG FaceFront =
     \<lparr> cfg_key = FaceFront, cfg_label = ''Front Panel'',
       cfg_rect = \<lparr> face_x = Fin 220, face_y = Fin 260, face_width = Fin 380, face_height = Fin 140 \<rparr>,
       cfg_materialIndex = 4 \<rparr>"
| "BOX_FACE_CONFIG FaceBack =
     \<lparr> cfg_key = FaceBack, cfg_label = ''Back Panel'',
       cfg_rect = \<lparr> face_x = Fin 220, face_y = Fin 120, face_width = Fin 380, face_height = Fin 140 \<rparr>,
       cfg_materialIndex = 5 \<rparr>"
| "BOX_FACE_CONFIG FaceLeft =
     \<lparr> cfg_key = FaceLeft, cfg_label = ''Left Side'',
       cfg_rect = \<lparr> face_x = Fin 100, face_y = Fin 180, face_width = Fin 120, face_height = Fin 160 \<rparr>,
       cfg_materialIndex = 1 \<rparr>"
| "BOX_FACE_CONFIG FaceRight =
     \<lparr> cfg_key = FaceRight, cfg_label = ''Right Side'',
       cfg_rect = \<lparr> face_x = Fin 600, face_y = Fin 180, face_width = Fin 120, face_height = Fin 160 \<rparr>,
       cfg_materialIndex = 0 \<rparr>"
| "BOX_FACE_CONFIG FaceTop =
     \<lparr> cfg_key = FaceTop, cfg_label = ''Top Flap'',
       cfg_rect = \<lparr> face_x = Fin 220, face_y = Fin 60, face_width = Fin 380, face_height = Fin 60 \<rparr>,
       cfg_materialIndex = 2 \<rparr>"
| "BOX_FACE_CONFIG FaceBottom =
     \<lparr> cfg_key = FaceBottom, cfg_label = ''Bottom Flap'',
       cfg_rect = \<lparr> face_x = Fin 220, face_y = Fin 400, face_width = Fin 380, face_height = Fin 60 \<rparr>,
       cfg_materialIndex = 3 \<rparr>"

text \<open>\<^verbatim>\<open>FaceTextureState = BoxFaceConfig & { dataUrl: string | null; version: number }\<close>\<close>

record FaceTextureState = BoxFaceConfig +
  dataUrl :: "string option"
  version :: nat

text \<open>
  \<^verbatim>\<open>faces: Record<BoxFaceKey, FaceTextureState>\<close> has a face for every key, so the guard
  \<^verbatim>\<open>if (!face) return\<close> of \<^verbatim>\<open>setFaceTextures\<close> never fires.
\<close>

record PreviewState =
  faces :: "BoxFaceKey \<Rightarrow> FaceTextureState"

definition initialFace :: "BoxFaceKey \<Rightarrow> FaceTextureState" where
  "initialFace k =
     \<lparr> cfg_key = cfg_key (BOX_FACE_CONFIG k), cfg_label = cfg_label (BOX_FACE_CONFIG k),
       cfg_rect = cfg_rect (BOX_FACE_CONFIG k),
       cfg_materialIndex = cfg_materialIndex (BOX_FACE_CONFIG k),
       dataUrl = None, version = 0 \<rparr>"

text \<open>
  \<^verbatim>\<open>createInitialFaces\<close> fills an empty object key by key along \<^verbatim>\<open>BOX_FACE_ORDER\<close>,
  which lists every key, so the value the accumulator starts with is never read.
\<close>

definition createInitialFaces :: "BoxFaceKey \<Rightarrow> FaceTextureState" where
  "createInitialFaces =
     fold (\<lambda>k acc. acc(k := initialFace k)) BOX_FACE_ORDER (\<lambda>k. initialFace FaceFront)"

definition initialPreview :: PreviewState where
  "initialPreview = \<lparr> faces = createInitialFaces \<rparr>"

text \<open>
  \<^verbatim>\<open>Partial<Record<BoxFaceKey, string | null>>\<close>: a key is absent (\<open>None\<close>) or carries a
  payload, itself \<^verbatim>\<open>null\<close> (\<open>Some None\<close>) or a data URL. \<^verbatim>\<open>Object.keys(updates)\<close> lists
  the keys present; each is listed once, and the loop over them reads the old state
  only, so their order does not matter.
\<close>

type_synonym faceUpdates = "BoxFaceKey \<Rightarrow> string option option"

definition objectKeys :: "faceUpdates \<Rightarrow> BoxFaceKey list" where
  "objectKeys updates = filter (\<lambda>k. updates k \<noteq> None) BOX_FACE_ORDER"

text \<open>\<^verbatim>\<open>updates[key] ?? null\<close>\<close>

definition payload :: "faceUpdates \<Rightarrow> BoxFaceKey \<Rightarrow> string option" where
  "payload updates k = (case updates k of Some u \<Rightarrow> u | None \<Rightarrow> None)"

text \<open>One turn of the \<^verbatim>\<open>forEach\<close> of \<^verbatim>\<open>setFaceTextures\<close>, on \<open>(nextFaces, hasChanges)\<close>.\<close>

definition faceStep ::
  "PreviewState \<Rightarrow> faceUpdates \<Rightarrow> BoxFaceKey
   \<Rightarrow> (BoxFaceKey \<Rightarrow> FaceTextureState) \<times> bool \<Rightarrow> (BoxFaceKey \<Rightarrow> FaceTextureState) \<times> bool" where
  "faceStep state updates k acc =
     (let face = faces state k;
          url = payload updates k
      in if dataUrl face = url then acc
         else ((fst acc)(k := face\<lparr>dataUrl := url, version := version face + 1\<rparr>), True))"

definition setFaceTextures :: "faceUpdates \<Rightarrow> PreviewState \<Rightarrow> PreviewState" where
  "setFaceTextures updates state =
     (if objectKeys updates = [] then state
      else
        let (nextFaces, hasChanges) =
              fold (faceStep state updates) (objectKeys updates) (faces state, False)
        in if \<not> hasChanges then state else state\<lparr>faces := nextFaces\<rparr>)"

definition resetFaceTextures :: "PreviewState \<Rightarrow> PreviewState" where
  "resetFaceTextures state = state\<lparr>faces := createInitialFaces\<rparr>"

datatype previewOp = SetFaceTextures faceUpdates | ResetFaceTextures

fun applyPreviewOp :: "previewOp \<Rightarrow> PreviewState \<Rightarrow> PreviewState" where
  "applyPreviewOp (SetFaceTextures u) state = setFaceTextures u state"
| "applyPreviewOp ResetFaceTextures state = resetFaceTextures state"

section \<open>Face-texture synchronisation (the stage component)\<close>

definition TARGET_TEXTURE_RESOLUTION :: jsnum where "TARGET_TEXTURE_RESOLUTION = Fin 1024"
definition MAX_TEXTURE_PIXEL_RATIO :: jsnum where "MAX_TEXTURE_PIXEL_RATIO = Fin 4"

text \<open>
  What \<^verbatim>\<open>updateFaceTextures\<close> reads: the values its closure holds and the refs. A layer
  or transformer ref is \<open>None\<close> when it is \<^verbatim>\<open>null\<close>, else its visibility.
\<close>

record SyncEnv =
  stageMounted :: bool
  dielineLoaded :: bool
  isReady :: bool
  canvasRotation :: jsnum
  effectiveScale :: jsnum
  layerPositionX :: jsnum
  layerPositionY :: jsnum

record StageView =
  backgroundLayer :: "bool option"
  dielineLayer :: "bool option"
  gridLayer :: "bool option"
  transformer :: "bool option"

record CaptureRequest =
  cap_x :: jsnum
  cap_y :: jsnum
  cap_width :: jsnum
  cap_height :: jsnum
  cap_pixelRatio :: jsnum

text \<open>
  \<^verbatim>\<open>stage.toDataURL\<close> belongs to the renderer: a parameter, from the stage as it is shown
  and the request to a data URL, or \<open>None\<close> when it throws.
\<close>

type_synonym capture = "StageView \<Rightarrow> CaptureRequest \<Rightarrow> string option"

definition setVisible :: "bool \<Rightarrow> bool option \<Rightarrow> bool option" where
  "setVisible v layer = (case layer of None \<Rightarrow> None | Some _ \<Rightarrow> Some v)"

text \<open>
  The \<^verbatim>\<open>for\<close> loop over \<^verbatim>\<open>BOX_FACE_ORDER\<close> inside the \<^verbatim>\<open>try\<close>: a capture that throws
  leaves the loop with the updates gathered so far.
\<close>

fun captureFaces ::
  "capture \<Rightarrow> SyncEnv \<Rightarrow> StageView \<Rightarrow> BoxFaceKey list \<Rightarrow> faceUpdates \<Rightarrow> faceUpdates" where
  "captureFaces cap env view [] updates = updates"
| "captureFaces cap env view (faceKey # rest) updates =
     (let rect = cfg_rect (BOX_FACE_CONFIG faceKey);
          stageWidth = jmul (face_width rect) (effectiveScale env);
          stageHeight = jmul (face_height rect) (effectiveScale env)
      in if jle stageWidth (Fin 0) \<or> jle stageHeight (Fin 0)
         then captureFaces cap env view rest (updates(faceKey := Some None))
         else
           let stageX = jadd (layerPositionX env) (jmul (face_x rect) (effectiveScale env));
               stageY = jadd (layerPositionY env) (jmul (face_y rect) (effectiveScale env));
               longestSide = jmax stageWidth stageHeight;
               pixelRatio =
                 (if jgt longestSide (Fin 0)
                  then jmin MAX_TEXTURE_PIXEL_RATIO
                         (jmax (Fin 1) (jdiv TARGET_TEXTURE_RESOLUTION longestSide))
                  else Fin 1)
           in case cap view \<lparr> cap_x = stageX, cap_y = stageY, cap_width = stageWidth,
                               cap_height = stageHeight, cap_pixelRatio = pixelRatio \<rparr> of
                None \<Rightarrow> updates
              | Some url \<Rightarrow> captureFaces cap env view rest (updates(faceKey := Some (Some url))))"

text \<open>
  \<^verbatim>\<open>updateFaceTextures\<close>: the two early returns, the capture with the overlays hidden,
  the \<^verbatim>\<open>finally\<close> block that shows every overlay layer again and gives the transformer
  its former visibility, and the publication of the updates gathered.
\<close>

definition updateFaceTextures ::
  "capture \<Rightarrow> SyncEnv \<Rightarrow> StageView \<times> PreviewState \<Rightarrow> StageView \<times> PreviewState" where
  "updateFaceTextures cap env vs =
     (let view = fst vs; state = snd vs
      in if \<not> stageMounted env \<or> \<not> dielineLoaded env \<or> \<not> isReady env then (view, state)
         else if \<not> jeq (jmod (canvasRotation env) (Fin 360)) (Fin 0) then (view, state)
         else
           let transformerWasVisible = (case transformer view of Some v \<Rightarrow> v | None \<Rightarrow> False);
               hidden = view\<lparr> backgroundLayer := setVisible False (backgroundLayer view),
                             dielineLayer := setVisible False (dielineLayer view),
                             gridLayer := setVisible False (gridLayer view),
                             transformer :=
                               (if transformerWasVisible then setVisible False (transformer view)
                                else transformer view) \<rparr>;
               updates = captureFaces cap env hidden BOX_FACE_ORDER (\<lambda>k. None);
               restored = hidden\<lparr> backgroundLayer := setVisible True (backgroundLayer hidden),
                                 dielineLayer := setVisible True (dielineLayer hidden),
                                 gridLayer := setVisible True (gridLayer hidden),
                                 transformer :=
                                   setVisible transformerWasVisible (transformer hidden) \<rparr>
           in if objectKeys updates \<noteq> [] then (restored, setFaceTextures updates state)
              else (restored, state))"

text \<open>The runs the debounce timer starts, one after the other.\<close>

fun syncRuns ::
  "(capture \<times> SyncEnv) list \<Rightarrow> StageView \<times> PreviewState \<Rightarrow> StageView \<times> PreviewState" where
  "syncRuns [] vs = vs"
| "syncRuns (run # runs) vs = syncRuns runs (updateFaceTextures (fst run) (snd run) vs)"

section \<open>Text layout (lib/text.ts)\<close>

datatype TextFontWeight = W400 | W600 | W700

text \<open>
  \<^verbatim>\<open>TextNodeData\<close>. The fields whose names other records or Isabelle itself use carry
  the suffix \<open>T\<close>.
\<close>

record TextNodeData =
  textT :: string
  xT :: jsnum
  yT :: jsnum
  rotationT :: jsnum
  fontFamily :: string
  fontSize :: jsnum
  fontWeight :: TextFontWeight
  fill :: string
  letterSpacing :: jsnum
  isCurved :: bool
  radius :: jsnum
  angle :: jsnum
  widthT :: jsnum
  heightT :: jsnum
  opacityT :: "jsnum option"
  lockAspectRatioT :: "bool option"

text \<open>\<^verbatim>\<open>Partial<TextNodeData>\<close>: every field may be absent.\<close>

record TextNodeUpdates =
  upd_text :: "string option"
  upd_x :: "jsnum option"
  upd_y :: "jsnum option"
  upd_rotation :: "jsnum option"
  upd_fontFamily :: "string option"
  upd_fontSize :: "jsnum option"
  upd_fontWeight :: "TextFontWeight option"
  upd_fill :: "string option"
  upd_letterSpacing :: "jsnum option"
  upd_isCurved :: "bool option"
  upd_radius :: "jsnum option"
  upd_angle :: "jsnum option"
  upd_width :: "jsnum option"
  upd_height :: "jsnum option"
  upd_opacity :: "jsnum option option"
  upd_lockAspectRatio :: "bool option option"

text \<open>
  The canvas font \<^verbatim>\<open>toCanvasFont\<close> builds, as its three parts, and the \<^verbatim>\<open>TextMetrics\<close>
  fields the code reads. The 2D context's \<^verbatim>\<open>measureText\<close> belongs to the browser: a
  parameter. \<^verbatim>\<open>getMeasureContext()\<close> gives \<open>None\<close> where there is no document.
\<close>

record CanvasFont =
  font_weight :: TextFontWeight
  font_size :: jsnum
  font_family :: string

record TextMetrics =
  tm_width :: jsnum
  actualBoundingBoxAscent :: "jsnum option"
  actualBoundingBoxDescent :: "jsnum option"

type_synonym measureContext = "CanvasFont \<Rightarrow> string \<Rightarrow> TextMetrics"

definition FALLBACK_LETTER_WIDTH_RATIO :: jsnum where
  "FALLBACK_LETTER_WIDTH_RATIO = Fin (6 / 10)"

record StraightTextMetrics =
  metrics_width :: jsnum
  metrics_height :: jsnum

record CurvedGlyph =
  g_char :: string
  g_x :: jsnum
  g_y :: jsnum
  g_rotation :: jsnum
  g_width :: jsnum
  g_height :: jsnum

record CurvedTextLayout =
  glyphs :: "CurvedGlyph list"
  layout_width :: jsnum
  layout_height :: jsnum

definition toCanvasFont :: "TextFontWeight \<Rightarrow> jsnum \<Rightarrow> string \<Rightarrow> CanvasFont" where
  "toCanvasFont weight fsize family =
     \<lparr> font_weight = weight, font_size = fsize, font_family = family \<rparr>"

definition getTextHeight :: "TextMetrics option \<Rightarrow> jsnum \<Rightarrow> jsnum" where
  "getTextHeight metrics fsize =
     (case metrics of
        None \<Rightarrow> fsize
      | Some m \<Rightarrow>
          let ascent = (case actualBoundingBoxAscent m of Some a \<Rightarrow> a | None \<Rightarrow> Fin 0);
              descent = (case actualBoundingBoxDescent m of Some d \<Rightarrow> d | None \<Rightarrow> Fin 0);
              height = jadd ascent descent
          in jor height fsize)"

text \<open>The length of a string, as a number.\<close>

definition lengthNum :: "string \<Rightarrow> jsnum" where
  "lengthNum t = Fin (real (length t))"

definition measureStraightText ::
  "measureContext option \<Rightarrow> string \<Rightarrow> string \<Rightarrow> jsnum \<Rightarrow> TextFontWeight \<Rightarrow> jsnum
   \<Rightarrow> StraightTextMetrics" where
  "measureStraightText context t family fsize weight spacingPx =
     (case context of
        None \<Rightarrow>
          let baseWidth =
                jmul (jmul (jmax (lengthNum t) (Fin 1)) fsize) FALLBACK_LETTER_WIDTH_RATIO;
              spacing = jmul (jmax (jsub (lengthNum t) (Fin 1)) (Fin 0)) spacingPx
          in \<lparr> metrics_width = jadd baseWidth spacing, metrics_height = fsize \<rparr>
      | Some measureText \<Rightarrow>
          let metrics = measureText (toCanvasFont weight fsize family)
                          (if t \<noteq> [] then t else '' '');
              baseWidth = tm_width metrics;
              spacing = jmul (jmax (jsub (lengthNum t) (Fin 1)) (Fin 0)) spacingPx
          in \<lparr> metrics_width = jadd baseWidth spacing,
               metrics_height = getTextHeight (Some metrics) fsize \<rparr>)"

text \<open>
  The first loop of \<^verbatim>\<open>computeCurvedTextLayout\<close>: the width of each character with the
  letter spacing added to all but the last, and the glyph height the loop leaves behind
  (that of the last character).
\<close>

definition measuredWidth :: "measureContext option \<Rightarrow> CanvasFont \<Rightarrow> jsnum \<Rightarrow> char \<Rightarrow> jsnum" where
  "measuredWidth context font fsize c =
     (case context of
        Some measureText \<Rightarrow> tm_width (measureText font [c])
      | None \<Rightarrow> jmul fsize FALLBACK_LETTER_WIDTH_RATIO)"

definition charWidths ::
  "measureContext option \<Rightarrow> CanvasFont \<Rightarrow> jsnum \<Rightarrow> jsnum \<Rightarrow> string \<Rightarrow> jsnum list" where
  "charWidths context font fsize spacingPx characters =
     map (\<lambda>(index, c).
            jadd (measuredWidth context font fsize c)
                 (if index < length characters - 1 then spacingPx else Fin 0))
         (enumerate 0 characters)"

definition lastGlyphHeight ::
  "measureContext option \<Rightarrow> CanvasFont \<Rightarrow> jsnum \<Rightarrow> string \<Rightarrow> jsnum" where
  "lastGlyphHeight context font fsize characters =
     (case context of
        Some measureText \<Rightarrow>
          (if characters = [] then fsize
           else getTextHeight (Some (measureText font [last characters])) fsize)
      | None \<Rightarrow> fsize)"

text \<open>
  What the second loop reads besides its counter and \<^verbatim>\<open>progressedAngle\<close>. The arithmetic
  of the layout is that of the number model: exact on finite values, with the real \<open>pi\<close>,
  cosine and sine. The doubles the code computes differ from these values by their
  rounding errors.
\<close>

record ArcParams =
  arc_count :: nat
  arc_letterSpacing :: jsnum
  arc_pxToAngle :: jsnum
  arc_startAngle :: jsnum
  arc_r :: jsnum
  arc_angleRad :: jsnum
  arc_glyphHeight :: jsnum

fun placeGlyphs :: "ArcParams \<Rightarrow> nat \<Rightarrow> jsnum \<Rightarrow> (char \<times> jsnum) list \<Rightarrow> CurvedGlyph list" where
  "placeGlyphs ps index progressedAngle [] = []"
| "placeGlyphs ps index progressedAngle (cw # rest) =
     (let widthWithSpacing = snd cw;
          charAngle = jmul widthWithSpacing (arc_pxToAngle ps);
          charCenterAngle =
            jadd (jadd (arc_startAngle ps) progressedAngle) (jdiv charAngle (Fin 2));
          positionAngle = charCenterAngle;
          px = jmul (arc_r ps) (jcos positionAngle);
          py = jmul (arc_r ps) (jsin positionAngle);
          charWidth =
            jsub widthWithSpacing
              (if index < arc_count ps - 1 then arc_letterSpacing ps else Fin 0);
          rot = jadd (jdiv (jmul positionAngle (Fin 180)) (Fin pi))
                  (if jge (arc_angleRad ps) (Fin 0) then Fin 90 else Fin (- 90))
      in \<lparr> g_char = [fst cw], g_x = px, g_y = py, g_rotation = rot, g_width = charWidth,
           g_height = arc_glyphHeight ps \<rparr>
         # placeGlyphs ps (Suc index) (jadd progressedAngle charAngle) rest)"

definition computeCurvedTextLayout ::
  "measureContext option \<Rightarrow> string \<Rightarrow> string \<Rightarrow> jsnum \<Rightarrow> TextFontWeight \<Rightarrow> jsnum \<Rightarrow> jsnum
   \<Rightarrow> jsnum \<Rightarrow> CurvedTextLayout" where
  "computeCurvedTextLayout context t family fsize weight spacingPx rad ang =
     (let characters = t;
          safeRadius = jmax (Fin 1) (jabs rad);
          radiusDirection = (if jge rad (Fin 0) then Fin 1 else Fin (- 1))
      in if characters = [] then
           let fallbackSize = jmax fsize (Fin 1)
           in \<lparr> glyphs = [], layout_width = fallbackSize, layout_height = fallbackSize \<rparr>
         else
           let font = toCanvasFont weight fsize family;
               widths = charWidths context font fsize spacingPx characters;
               glyphHeight = lastGlyphHeight context font fsize characters;
               totalWidth = foldl jadd (Fin 0) widths;
               angleRad = (if jeq ang (Fin 0) then jdiv totalWidth safeRadius
                           else jdiv (jmul ang (Fin pi)) (Fin 180));
               pxToAngle = (if jeq totalWidth (Fin 0) then Fin 0 else jdiv angleRad totalWidth);
               startAngle = jdiv (jneg angleRad) (Fin 2);
               glyphsRaw =
                 placeGlyphs
                   \<lparr> arc_count = length characters, arc_letterSpacing = spacingPx,
                     arc_pxToAngle = pxToAngle, arc_startAngle = startAngle,
                     arc_r = jmul safeRadius radiusDirection, arc_angleRad = angleRad,
                     arc_glyphHeight = glyphHeight \<rparr>
                   0 (Fin 0) (zip characters widths);
               minX = foldl (\<lambda>m g. jmin m (jsub (g_x g) (jdiv (g_width g) (Fin 2)))) PInf glyphsRaw;
               maxX = foldl (\<lambda>m g. jmax m (jadd (g_x g) (jdiv (g_width g) (Fin 2)))) NInf glyphsRaw;
               minY = foldl (\<lambda>m g. jmin m (jsub (g_y g) (jdiv (g_height g) (Fin 2)))) PInf glyphsRaw;
               maxY = foldl (\<lambda>m g. jmax m (jadd (g_y g) (jdiv (g_height g) (Fin 2)))) NInf glyphsRaw;
               centerX = jdiv (jadd minX maxX) (Fin 2);
               centerY = jdiv (jadd minY maxY) (Fin 2)
           in \<lparr> glyphs = map (\<lambda>g. g\<lparr> g_x := jsub (g_x g) centerX, g_y := jsub (g_y g) centerY \<rparr>)
                          glyphsRaw,
                layout_width = jsub maxX minX,
                layout_height = jsub maxY minY \<rparr>)"

text \<open>\<^verbatim>\<open>{ ...data, ...updates }\<close>, field by field.\<close>

definition mergeField :: "'a \<Rightarrow> 'a option \<Rightarrow> 'a" where
  "mergeField old new = (case new of Some v \<Rightarrow> v | None \<Rightarrow> old)"

definition mergeText :: "TextNodeData \<Rightarrow> TextNodeUpdates \<Rightarrow> TextNodeData" where
  "mergeText d u =
     \<lparr> textT = mergeField (textT d) (upd_text u),
       xT = mergeField (xT d) (upd_x u),
       yT = mergeField (yT d) (upd_y u),
       rotationT = mergeField (rotationT d) (upd_rotation u),
       fontFamily = mergeField (fontFamily d) (upd_fontFamily u),
       fontSize = mergeField (fontSize d) (upd_fontSize u),
       fontWeight = mergeField (fontWeight d) (upd_fontWeight u),
       fill = mergeField (fill d) (upd_fill u),
       letterSpacing = mergeField (letterSpacing d) (upd_letterSpacing u),
       isCurved = mergeField (isCurved d) (upd_isCurved u),
       radius = mergeField (radius d) (upd_radius u),
       angle = mergeField (angle d) (upd_angle u),
       widthT = mergeField (widthT d) (upd_width u),
       heightT = mergeField (heightT d) (upd_height u),
       opacityT = mergeField (opacityT d) (upd_opacity u),
       lockAspectRatioT = mergeField (lockAspectRatioT d) (upd_lockAspectRatio u) \<rparr>"

definition withUpdatedTextMetrics ::
  "measureContext option \<Rightarrow> TextNodeData \<Rightarrow> TextNodeUpdates \<Rightarrow> TextNodeData" where
  "withUpdatedTextMetrics context d u =
     (let next0 = mergeText d u;
          next1 = (if \<not> isFinite (fontSize next0) \<or> jle (fontSize next0) (Fin 0)
                   then next0\<lparr>fontSize := jmax (Fin 12) (fontSize d)\<rparr> else next0);
          next2 = (if \<not> isFinite (letterSpacing next1)
                   then next1\<lparr>letterSpacing := letterSpacing d\<rparr> else next1);
          next3 = (if \<not> isFinite (radius next2) \<or> jeq (radius next2) (Fin 0)
                   then next2\<lparr>radius := jor (radius d) (Fin 150)\<rparr> else next2);
          next4 = (if \<not> isFinite (angle next3)
                   then next3\<lparr>angle := angle d\<rparr> else next3)
      in if isCurved next4 then
           let layout = computeCurvedTextLayout context (textT next4) (fontFamily next4)
                          (fontSize next4) (fontWeight next4) (letterSpacing next4)
                          (radius next4) (angle next4)
           in next4\<lparr> widthT := jor (layout_width layout) (jmax (fontSize next4) (Fin 1)),
                      heightT := jor (layout_height layout) (jmax (fontSize next4) (Fin 1)) \<rparr>
         else
           let metrics = measureStraightText context (textT next4) (fontFamily next4)
                           (fontSize next4) (fontWeight next4) (letterSpacing next4)
           in next4\<lparr> widthT := jor (metrics_width metrics) (jmax (fontSize next4) (Fin 1)),
                      heightT := jor (metrics_height metrics) (jmax (fontSize next4) (Fin 1)) \<rparr>)"

text \<open>
  The centre angles of the glyphs as real numbers, from the start angle, the angle
  covered so far and the angular span of each glyph: what the second loop computes when
  every number is finite.
\<close>

fun centerAngles :: "real \<Rightarrow> real \<Rightarrow> real list \<Rightarrow> real list" where
  "centerAngles s prog [] = []"
| "centerAngles s prog (a # as) = (s + prog + a / 2) # centerAngles s (prog + a) as"

text \<open>
  The parameters of the second loop for an angle of 180 degrees, a radius \<open>R\<close>, finite
  widths \<open>ws\<close> and a glyph height \<open>h\<close>.
\<close>

definition arcOf :: "nat \<Rightarrow> jsnum \<Rightarrow> real list \<Rightarrow> real \<Rightarrow> real \<Rightarrow> ArcParams" where
  "arcOf n ls ws R h =
     \<lparr> arc_count = n, arc_letterSpacing = ls,
       arc_pxToAngle = Fin (if sum_list ws = 0 then 0 else pi / sum_list ws),
       arc_startAngle = Fin (- pi / 2),
       arc_r = Fin (max 1 \<bar>R\<bar> * (if 0 \<le> R then 1 else - 1)),
       arc_angleRad = Fin pi, arc_glyphHeight = Fin h \<rparr>"

section \<open>Example inputs\<close>

definition exampleEnv :: SyncEnv where
  "exampleEnv = \<lparr> stageMounted = True, dielineLoaded = True, isReady = True,
     canvasRotation = Fin 90, effectiveScale = Fin 1, layerPositionX = Fin 0,
     layerPositionY = Fin 0 \<rparr>"

definition exampleView :: StageView where
  "exampleView = \<lparr> backgroundLayer = Some True, dielineLayer = Some True,
     gridLayer = Some False, transformer = None \<rparr>"

definition exampleNode :: DocumentNode where
  "exampleNode =
     \<lparr> node_id = ''n1'', node_type = ''image'',
       node_data = Some [(''assetId'', JString ''a1''), (''x'', JNumber (Fin 100)),
                         (''y'', JNumber (Fin 100)), (''rotation'', JNumber (Fin 0))] \<rparr>"

definition draggedState :: DocumentState where
  "draggedState = addNode exampleNode initialState"

definition rotateTo :: "real \<Rightarrow> updates" where
  "rotateTo r = Partial [(''rotation'', JNumber (Fin r))]"

definition exampleText :: TextNodeData where
  "exampleText =
     \<lparr> textT = ''abc'', xT = Fin 0, yT = Fin 0, rotationT = Fin 0, fontFamily = ''Inter'',
       fontSize = Fin 10, fontWeight = W400, fill = ''#000000'', letterSpacing = Fin 0,
       isCurved = True, radius = Fin 100, angle = Fin 180, widthT = Fin 0, heightT = Fin 0,
       opacityT = None, lockAspectRatioT = None \<rparr>"

definition noUpdates :: TextNodeUpdates where
  "noUpdates =
     \<lparr> upd_text = None, upd_x = None, upd_y = None, upd_rotation = None,
       upd_fontFamily = None, upd_fontSize = None, upd_fontWeight = None, upd_fill = None,
       upd_letterSpacing = None, upd_isCurved = None, upd_radius = None, upd_angle = None,
       upd_width = None, upd_height = None, upd_opacity = None, upd_lockAspectRatio = None \<rparr>"

definition badUpdates :: TextNodeUpdates where
  "badUpdates =
     noUpdates\<lparr> upd_fontSize := Some NaN, upd_letterSpacing := Some PInf,
                upd_radius := Some (Fin 0), upd_angle := Some NInf \<rparr>"

section \<open>Properties of the document store\<close>

lemma cloneNode_same [simp]: "cloneNode node = node"
  by (cases "node_data node") (simp_all add: cloneNode_def)

lemma cloneNodes_same [simp]: "cloneNodes ns = ns"
  by (induction ns) (simp_all add: cloneNodes_def)

text \<open>
  C10. The view-level setters \<^verbatim>\<open>setZoom\<close>, \<^verbatim>\<open>zoomIn\<close>, \<^verbatim>\<open>zoomOut\<close>, \<^verbatim>\<open>resetZoom\<close>,
  \<^verbatim>\<open>setRotation\<close>, \<^verbatim>\<open>rotateCanvasLeft\<close> and \<^verbatim>\<open>rotateCanvasRight\<close> leave the nodes, the
  selection and both history stacks exactly as they were, for every pre-state and
  every argument.
\<close>

theorem view_setters_frame:
  "nodes (applyViewOp v state) = nodes state
   \<and> selection (applyViewOp v state) = selection state
   \<and> past (applyViewOp v state) = past state
   \<and> future (applyViewOp v state) = future state"
  by (cases v)
     (simp_all add: setZoom_def zoomIn_def zoomOut_def resetZoom_def setRotation_def
        rotateCanvasLeft_def rotateCanvasRight_def Let_def)

section \<open>Zoom\<close>

lemma jmax_Fin [simp]: "jmax (Fin a) (Fin b) = Fin (max a b)"
  by (simp add: max_def)

lemma jmin_Fin [simp]: "jmin (Fin a) (Fin b) = Fin (min a b)"
  by (simp add: min_def)

lemma normalizeZoom_Fin:
  "normalizeZoom (Fin r) =
     Fin (min (5 / 2) (max (1 / 2) (of_int \<lfloor>r * 100 + 1 / 2\<rfloor> / 100)))"
  unfolding normalizeZoom_def MIN_ZOOM_def MAX_ZOOM_def Let_def
  by (simp only: jmul.simps jround.simps jdiv.simps jmax_Fin jmin_Fin) simp

lemma normalizeZoom_PInf: "normalizeZoom PInf = Fin (5 / 2)"
  by (simp add: normalizeZoom_def MIN_ZOOM_def MAX_ZOOM_def Let_def signedInf_def)

lemma normalizeZoom_NInf: "normalizeZoom NInf = Fin (1 / 2)"
  by (simp add: normalizeZoom_def MIN_ZOOM_def MAX_ZOOM_def Let_def signedInf_def)

lemma normalizeZoom_NaN: "normalizeZoom NaN = NaN"
  by (simp add: normalizeZoom_def MIN_ZOOM_def MAX_ZOOM_def Let_def)

lemma normalizeZoom_in_range:
  assumes "v \<noteq> NaN"
  shows "zoomInRange (normalizeZoom v)"
proof (cases v)
  case (Fin r)
  define k where "k = \<lfloor>r * 100 + 1 / 2\<rfloor>"
  define q where "q = min (5 / 2) (max (1 / 2) (real_of_int k / 100))"
  have "q = 5 / 2 \<or> q = 1 / 2 \<or> q = real_of_int k / 100"
    by (auto simp add: q_def min_def max_def)
  then have "\<exists>n :: int. q * 100 = of_int n"
  proof (elim disjE)
    assume a: "q = 5 / 2"
    have "q * 100 = real_of_int 250" unfolding a by simp
    then show ?thesis by blast
  next
    assume a: "q = 1 / 2"
    have "q * 100 = real_of_int 50" unfolding a by simp
    then show ?thesis by blast
  next
    assume a: "q = real_of_int k / 100"
    have "q * 100 = real_of_int k" unfolding a by simp
    then show ?thesis by blast
  qed
  then obtain n :: int where "q * 100 = of_int n" by blast
  then have "q * 100 = of_int \<lfloor>q * 100\<rfloor>" by (simp only: floor_of_int)
  moreover have "1 / 2 \<le> q" and "q \<le> 5 / 2" by (simp_all add: q_def)
  moreover have "normalizeZoom v = Fin q"
    by (simp add: Fin normalizeZoom_Fin q_def k_def)
  ultimately show ?thesis
    by (simp add: zoomInRange_def)
next
  case PInf
  then show ?thesis by (simp add: normalizeZoom_PInf zoomInRange_def)
next
  case NInf
  then show ?thesis by (simp add: normalizeZoom_NInf zoomInRange_def)
next
  case NaN
  with assms show ?thesis by simp
qed

lemma zoomInRange_step:
  assumes "zoomInRange (zoom state)" and "case v of SetZoom z \<Rightarrow> z \<noteq> NaN | _ \<Rightarrow> True"
  shows "zoomInRange (zoom (applyViewOp v state))"
proof (cases v)
  case (SetZoom z)
  with assms show ?thesis
    by (simp add: setZoom_def Let_def normalizeZoom_in_range)
next
  case ZoomIn
  from assms(1) obtain r where r: "zoom state = Fin r" by (auto simp add: zoomInRange_def split: jsnum.splits)
  with ZoomIn assms(1) show ?thesis
    by (simp add: zoomIn_def Let_def ZOOM_STEP_def normalizeZoom_in_range)
next
  case ZoomOut
  from assms(1) obtain r where r: "zoom state = Fin r" by (auto simp add: zoomInRange_def split: jsnum.splits)
  with ZoomOut assms(1) show ?thesis
    by (simp add: zoomOut_def Let_def ZOOM_STEP_def jsub_def normalizeZoom_in_range)
next
  case ResetZoom
  then show ?thesis by (simp add: resetZoom_def zoomInRange_def)
next
  case (SetRotation x)
  with assms(1) show ?thesis by (simp add: setRotation_def)
next
  case RotateCanvasLeft
  with assms(1) show ?thesis by (simp add: rotateCanvasLeft_def Let_def)
next
  case RotateCanvasRight
  with assms(1) show ?thesis by (simp add: rotateCanvasRight_def Let_def)
qed

lemma zoom_stays_in_range:
  "zoomInRange (zoom state) \<Longrightarrow> zoomOps vs \<Longrightarrow> zoomInRange (zoom (applyViewOps vs state))"
proof (induction vs arbitrary: state)
  case Nil
  then show ?case by simp
next
  case (Cons v vs)
  have "zoomInRange (zoom (applyViewOp v state))"
    using Cons.prems by (intro zoomInRange_step) (auto split: viewOp.splits)
  moreover have "zoomOps vs" using Cons.prems(2) by (cases v) simp_all
  ultimately show ?case using Cons.IH by simp
qed

lemma initial_zoom_in_range: "zoomInRange (zoom initialState)"
  by (simp add: initialState_def zoomInRange_def)

text \<open>
  C8. Every zoom setter stores the clamped, rounded value, so that the zoom should stay
  in \<open>[0.5, 2.5]\<close> after any sequence of zoom operations; for arguments other than
  \<open>NaN\<close> it does (\<open>zoom_stays_in_range\<close>). The clamp lets \<open>NaN\<close> through:
  \<^verbatim>\<open>setZoom(NaN)\<close> on the initial state stores \<open>NaN\<close>, which is not in the range, is not
  equal to the current zoom (so the no-op guard does not fire), and stays through every
  later \<^verbatim>\<open>zoomIn\<close> and \<^verbatim>\<open>zoomOut\<close>.
\<close>

theorem setZoom_NaN_leaves_range:
  "zoom (setZoom NaN initialState) = NaN
   \<and> \<not> (jle MIN_ZOOM (zoom (setZoom NaN initialState))
        \<and> jle (zoom (setZoom NaN initialState)) MAX_ZOOM)
   \<and> zoom (zoomIn (setZoom NaN initialState)) = NaN
   \<and> zoom (zoomOut (setZoom NaN initialState)) = NaN"
  by (simp add: setZoom_def zoomIn_def zoomOut_def normalizeZoom_NaN initialState_def jle_def
      jsub_def ZOOM_STEP_def)

section \<open>Containment\<close>

subsection \<open>Rounding to the nearest double\<close>

text \<open>
  Rounding to the nearest integer, ties to even, lies between the floor and its
  successor, fixes the integers, is monotone and odd.
\<close>

lemma rhe_between: "\<lfloor>q\<rfloor> \<le> roundHalfEven q \<and> roundHalfEven q \<le> \<lfloor>q\<rfloor> + 1"
  by (simp add: roundHalfEven_def Let_def)

lemma rhe_of_int [simp]: "roundHalfEven (of_int n) = n"
  by (simp add: roundHalfEven_def Let_def)

lemma rhe_mono:
  assumes "q \<le> q'"
  shows "roundHalfEven q \<le> roundHalfEven q'"
proof (cases "\<lfloor>q\<rfloor> = \<lfloor>q'\<rfloor>")
  case True
  with assms show ?thesis
    by (auto simp add: roundHalfEven_def Let_def)
next
  case False
  with assms have "\<lfloor>q\<rfloor> < \<lfloor>q'\<rfloor>" using floor_mono [OF assms] by simp
  with rhe_between [of q] rhe_between [of q'] show ?thesis by simp
qed

lemma rhe_minus: "roundHalfEven (- q) = - roundHalfEven q"
proof (cases "q = of_int \<lfloor>q\<rfloor>")
  case True
  then have "- q = of_int (- \<lfloor>q\<rfloor>)" by simp
  then have "roundHalfEven (- q) = - \<lfloor>q\<rfloor>" by (simp only: rhe_of_int)
  moreover have "roundHalfEven q = \<lfloor>q\<rfloor>" using True rhe_of_int [of "\<lfloor>q\<rfloor>"] by simp
  ultimately show ?thesis by simp
next
  case False
  have "q \<noteq> of_int n" for n :: int
  proof
    assume "q = of_int n"
    then have "q = of_int \<lfloor>q\<rfloor>" by simp
    with False show False by simp
  qed
  then have c: "\<lceil>q\<rceil> = \<lfloor>q\<rfloor> + 1" by (simp add: ceiling_altdef)
  have f: "\<lfloor>- q\<rfloor> = - \<lfloor>q\<rfloor> - 1" using c by (simp add: floor_minus)
  have "of_int \<lfloor>q\<rfloor> \<le> q" by (rule of_int_floor_le)
  with False have lt: "of_int \<lfloor>q\<rfloor> < q" by linarith
  show ?thesis
    using lt by (auto simp add: roundHalfEven_def Let_def f)
qed


lemma ulp_pos: "0 < ulp r"
  by (simp add: ulp_def)

lemma binade_minus [simp]: "binade (- r) = binade r"
  by (simp add: binade_def)

lemma ulp_minus [simp]: "ulp (- r) = ulp r"
  by (simp add: ulp_def)

lemma binade_upper:
  assumes "0 < r"
  shows "r < 2 powr (of_int (binade r) + 1)"
proof -
  have "log 2 r < of_int \<lfloor>log 2 r\<rfloor> + 1" by linarith
  also have "\<dots> \<le> of_int (binade r) + 1" using assms by (simp add: binade_def)
  finally have "2 powr log 2 r < 2 powr (of_int (binade r) + 1)"
    by (simp add: powr_less_mono)
  then show ?thesis using assms by simp
qed

lemma binade_lower:
  assumes "0 < r" and "- 1022 < binade r"
  shows "2 powr of_int (binade r) \<le> r"
proof -
  from assms have "binade r = \<lfloor>log 2 r\<rfloor>" by (simp add: binade_def max_def split: if_splits)
  then have "of_int (binade r) \<le> log 2 r" by simp
  then have "2 powr of_int (binade r) \<le> 2 powr log 2 r" by (simp add: powr_mono)
  then show ?thesis using assms by simp
qed

lemma binade_mono:
  assumes "0 < r" and "r \<le> s"
  shows "binade r \<le> binade s"
proof -
  have "log 2 r \<le> log 2 s" using assms by simp
  then have "\<lfloor>log 2 r\<rfloor> \<le> \<lfloor>log 2 s\<rfloor>" by (rule floor_mono)
  moreover have "\<bar>r\<bar> = r" and "\<bar>s\<bar> = s" using assms by simp_all
  ultimately have "\<lfloor>log 2 \<bar>r\<bar>\<rfloor> \<le> \<lfloor>log 2 \<bar>s\<bar>\<rfloor>" by simp
  then show ?thesis unfolding binade_def by (intro max.mono order_refl)
qed

lemma nearest_minus: "nearest (- r) = - nearest r"
  by (simp add: nearest_def rhe_minus)

lemma nearest_upper:
  assumes "0 < r"
  shows "nearest r \<le> 2 powr (of_int (binade r) + 1)"
proof -
  have e: "real_of_int (binade r - 52) + 53 = real_of_int (binade r) + 1" by simp
  have u: "ulp r * 2 powr 53 = 2 powr (of_int (binade r) + 1)"
    unfolding ulp_def powr_add [symmetric] e ..
  have "r / ulp r < 2 powr 53"
    using binade_upper [OF assms] ulp_pos [of r] u by (simp add: field_simps)
  moreover have "(2::real) powr 53 = of_int (2 ^ 53)" by simp
  ultimately have "r / ulp r \<le> of_int (2 ^ 53)" by simp
  from rhe_mono [OF this] have "roundHalfEven (r / ulp r) \<le> 2 ^ 53"
    by (simp only: rhe_of_int)
  then have "real_of_int (roundHalfEven (r / ulp r)) \<le> 2 powr 53"
    by (metis \<open>(2::real) powr 53 = of_int (2 ^ 53)\<close> of_int_le_iff)
  then have "real_of_int (roundHalfEven (r / ulp r)) * ulp r \<le> 2 powr 53 * ulp r"
    using ulp_pos [of r] by (simp add: mult_right_mono)
  with assms u show ?thesis by (simp add: nearest_def mult.commute)
qed

lemma nearest_lower:
  assumes "0 < r" and "- 1022 < binade r"
  shows "2 powr of_int (binade r) \<le> nearest r"
proof -
  have e: "real_of_int (binade r - 52) + 52 = real_of_int (binade r)" by simp
  have u: "ulp r * 2 powr 52 = 2 powr of_int (binade r)"
    unfolding ulp_def powr_add [symmetric] e ..
  have "2 powr 52 \<le> r / ulp r"
    using binade_lower [OF assms] ulp_pos [of r] u by (simp add: field_simps)
  moreover have "(2::real) powr 52 = of_int (2 ^ 52)" by simp
  ultimately have "of_int (2 ^ 52) \<le> r / ulp r" by simp
  from rhe_mono [OF this] have "2 ^ 52 \<le> roundHalfEven (r / ulp r)"
    by (simp only: rhe_of_int)
  then have "2 powr 52 \<le> real_of_int (roundHalfEven (r / ulp r))"
    by (metis \<open>(2::real) powr 52 = of_int (2 ^ 52)\<close> of_int_le_iff)
  then have "2 powr 52 * ulp r \<le> real_of_int (roundHalfEven (r / ulp r)) * ulp r"
    using ulp_pos [of r] by (simp add: mult_right_mono)
  with assms u show ?thesis by (simp add: nearest_def mult.commute)
qed

lemma nearest_nonneg:
  assumes "0 \<le> r"
  shows "0 \<le> nearest r"
proof (cases "r = 0")
  case True
  then show ?thesis by (simp add: nearest_def)
next
  case False
  have "0 \<le> r / ulp r" using assms ulp_pos [of r] by simp
  from rhe_mono [OF this] have "0 \<le> roundHalfEven (r / ulp r)"
    using rhe_of_int [of 0] by simp
  then show ?thesis using False ulp_pos [of r] by (simp add: nearest_def)
qed

lemma nearest_mono_pos:
  assumes "0 < r" and "r \<le> s"
  shows "nearest r \<le> nearest s"
proof (cases "binade r = binade s")
  case True
  then have u: "ulp r = ulp s" by (simp add: ulp_def)
  have "r / ulp s \<le> s / ulp s" using assms ulp_pos [of s] by (simp add: divide_right_mono)
  from rhe_mono [OF this]
  have "real_of_int (roundHalfEven (r / ulp s)) * ulp s \<le> real_of_int (roundHalfEven (s / ulp s)) * ulp s"
    using ulp_pos [of s] by (simp add: mult_right_mono)
  with assms show ?thesis by (simp add: nearest_def u)
next
  case False
  with binade_mono [OF assms] have lt: "binade r < binade s" by simp
  have s: "0 < s" using assms by simp
  have "- 1022 \<le> binade r" by (simp add: binade_def)
  with lt have "- 1022 < binade s" by simp
  from nearest_lower [OF s this] have "2 powr of_int (binade s) \<le> nearest s" .
  moreover have "real_of_int (binade r) + 1 \<le> real_of_int (binade s)"
    using lt by linarith
  then have "(2::real) powr (of_int (binade r) + 1) \<le> 2 powr of_int (binade s)"
    by (rule powr_mono) simp
  moreover note nearest_upper [OF assms(1)]
  ultimately show ?thesis by linarith
qed

lemma nearest_mono:
  assumes "r \<le> s"
  shows "nearest r \<le> nearest s"
proof -
  consider "0 < r" | "r \<le> 0" "0 \<le> s" | "s < 0" by linarith
  then show ?thesis
  proof cases
    case 1
    then show ?thesis using assms by (rule nearest_mono_pos)
  next
    case 2
    have "nearest r \<le> 0" using nearest_nonneg [of "- r"] 2(1) by (simp add: nearest_minus)
    moreover have "0 \<le> nearest s" using 2(2) by (rule nearest_nonneg)
    ultimately show ?thesis by simp
  next
    case 3
    then have "0 < - s" and "- s \<le> - r" using assms by simp_all
    from nearest_mono_pos [OF this] show ?thesis by (simp add: nearest_minus)
  qed
qed

lemma round64_mono:
  assumes "r \<le> s"
  shows "jle (round64 r) (round64 s)"
  using nearest_mono [OF assms]
  by (auto simp add: round64_def Let_def jle_def)

text \<open>Doubles between 1 and 2 are the multiples of \<open>2 ^ - 52\<close>.\<close>

lemma binade_unit:
  assumes "1 \<le> r" and "r < 2"
  shows "binade r = 0"
proof -
  have "0 \<le> log 2 r" using assms by simp
  moreover have "log 2 r < 1" using assms by simp
  ultimately have "\<lfloor>log 2 r\<rfloor> = 0" by linarith
  moreover have "\<bar>r\<bar> = r" using assms by simp
  ultimately show ?thesis by (simp add: binade_def)
qed

lemma ulp_unit:
  assumes "1 \<le> r" and "r < 2"
  shows "ulp r = 1 / 2 ^ 52"
  using binade_unit [OF assms] by (simp add: ulp_def powr_neg_numeral)

lemma round64_one: "round64 1 = Fin 1"
proof -
  have u: "ulp 1 = 1 / 2 ^ 52" by (rule ulp_unit) simp_all
  have "(1::real) / (1 / 2 ^ 52) = of_int (2 ^ 52)" by simp
  then have "roundHalfEven (1 / ulp 1) = 2 ^ 52" unfolding u by (simp only: rhe_of_int)
  then have "nearest 1 = 1" by (simp add: nearest_def u)
  then show ?thesis by (simp add: round64_def)
qed

lemma round64_one_plus_half_ulp: "round64 (1 + 1 / 2 ^ 53) = Fin 1"
proof -
  define r :: real where "r = 1 + 1 / 2 ^ 53"
  have r0: "r \<noteq> 0" and r1: "1 \<le> r" and r2: "r < 2" by (simp_all add: r_def)
  have u: "ulp r = 1 / 2 ^ 52" using r1 r2 by (rule ulp_unit)
  have q: "r / ulp r = of_int (2 ^ 52) + 1 / 2" unfolding u by (simp add: r_def)
  have "\<lfloor>real_of_int (2 ^ 52) + 1 / 2\<rfloor> = 2 ^ 52" by linarith
  then have "roundHalfEven (real_of_int (2 ^ 52) + 1 / 2) = 2 ^ 52"
    by (simp add: roundHalfEven_def Let_def)
  then have "roundHalfEven (r / ulp r) = 2 ^ 52" unfolding q .
  then have "nearest r = of_int (2 ^ 52) * (1 / 2 ^ 52)"
    using r0 by (simp only: nearest_def u if_False)
  then have "nearest r = 1" by simp
  then have "round64 r = Fin 1" by (simp add: round64_def)
  then show ?thesis by (simp only: r_def)
qed

lemma round64_unit_exact:
  assumes "1 \<le> r" and "r < 2" and "r * 2 ^ 52 = of_int n"
  shows "round64 r = Fin r"
proof -
  have r0: "r \<noteq> 0" using assms(1) by simp
  have u: "ulp r = 1 / 2 ^ 52" using assms(1,2) by (rule ulp_unit)
  have "r / ulp r = of_int n" unfolding u using assms(3) by simp
  then have "roundHalfEven (r / ulp r) = n" by (simp only: rhe_of_int)
  then have "nearest r = of_int n * (1 / 2 ^ 52)"
    using r0 by (simp only: nearest_def u if_False)
  also have "\<dots> = r" using assms(3) [symmetric] by simp
  finally have "nearest r = r" .
  then show ?thesis using assms(1,2) by (simp add: round64_def)
qed

lemma round64_three_halves: "round64 (1 + 1 / 2) = Fin (1 + 1 / 2)"
  by (rule round64_unit_exact [where n = "3 * 2 ^ 51"]) simp_all

text \<open>The powers of two are doubles up to \<open>2 ^ 1023\<close>; the sum of two \<open>2 ^ 1023\<close> is infinite.\<close>

lemma nearest_power2: "nearest (2 ^ n) = 2 ^ n"
proof -
  have b: "binade (2 ^ n) = int n" by (simp add: binade_def)
  have e: "real_of_int (int n - 52) + 52 = real n" by simp
  have "ulp (2 ^ n) * 2 powr 52 = 2 powr real n"
    unfolding ulp_def b powr_add [symmetric] e ..
  then have u: "ulp (2 ^ n) * 2 ^ 52 = 2 ^ n" by (simp add: powr_realpow)
  have "(2::real) ^ n / ulp (2 ^ n) = of_int (2 ^ 52)"
    using u ulp_pos [of "2 ^ n"] by (simp add: field_simps)
  then have "roundHalfEven (2 ^ n / ulp (2 ^ n)) = 2 ^ 52" by (simp only: rhe_of_int)
  then have "nearest (2 ^ n) = of_int (2 ^ 52) * ulp (2 ^ n)" by (simp add: nearest_def)
  with u show ?thesis by (simp add: mult.commute)
qed

lemma round64_overflow: "round64 (2 ^ 1023 + 2 ^ 1023) = PInf"
proof -
  have "(2::real) ^ 1023 + 2 ^ 1023 = 2 ^ Suc 1023" by (simp only: power_Suc mult_2)
  also have "Suc 1023 = 1024" by simp
  finally have r: "(2::real) ^ 1023 + 2 ^ 1023 = 2 ^ 1024" .
  have "nearest (2 ^ 1024) = 2 ^ 1024" by (rule nearest_power2)
  then have "round64 (2 ^ 1024) = PInf" by (simp only: round64_def Let_def order_refl if_True)
  then show ?thesis by (simp only: r)
qed

subsection \<open>The containment test\<close>

lemma isInsideDieline_Fin:
  "isInsideDieline
     \<lparr> dieline_x = Fin dx, dieline_y = Fin dy, dieline_width = Fin dw, dieline_height = Fin dh \<rparr>
     \<lparr> rect_x = Fin x, rect_y = Fin y, rect_width = Fin w, rect_height = Fin h \<rparr>
   = (w \<le> 0 \<or> h \<le> 0
      \<or> (dx \<le> x \<and> dy \<le> y \<and> jle (round64 (x + w)) (round64 (dx + dw))
         \<and> jle (round64 (y + h)) (round64 (dy + dh))))"
  by (auto simp add: isInsideDieline_def jle_def jge_def Let_def dadd_def)

text \<open>
  C9. On finite numbers \<^verbatim>\<open>isInsideDieline\<close> is true exactly when the rect has no positive
  width or no positive height, or its left and top edges lie within the dieline's and
  its right and bottom edges, as the doubles \<^verbatim>\<open>x + width\<close> and \<^verbatim>\<open>y + height\<close>, are at most
  the dieline's. Rounding is monotone, so a rect that lies within the dieline is
  reported inside. A rect of positive size that crosses the left or the top edge is
  reported outside; one that crosses the right or the bottom edge is reported outside
  when the four sums are doubles themselves. A rect of zero or negative width or height
  is reported inside wherever it is, and whatever the dieline.
\<close>

theorem isInsideDieline_rounded:
  "isInsideDieline
     \<lparr> dieline_x = Fin dx, dieline_y = Fin dy, dieline_width = Fin dw, dieline_height = Fin dh \<rparr>
     \<lparr> rect_x = Fin x, rect_y = Fin y, rect_width = Fin w, rect_height = Fin h \<rparr>
   = (w \<le> 0 \<or> h \<le> 0
      \<or> (dx \<le> x \<and> dy \<le> y \<and> jle (round64 (x + w)) (round64 (dx + dw))
         \<and> jle (round64 (y + h)) (round64 (dy + dh))))
   \<and> (dx \<le> x \<and> dy \<le> y \<and> x + w \<le> dx + dw \<and> y + h \<le> dy + dh
      \<longrightarrow> isInsideDieline
            \<lparr> dieline_x = Fin dx, dieline_y = Fin dy, dieline_width = Fin dw,
              dieline_height = Fin dh \<rparr>
            \<lparr> rect_x = Fin x, rect_y = Fin y, rect_width = Fin w, rect_height = Fin h \<rparr>)
   \<and> (0 < w \<and> 0 < h \<and> (x < dx \<or> y < dy)
      \<longrightarrow> \<not> isInsideDieline
            \<lparr> dieline_x = Fin dx, dieline_y = Fin dy, dieline_width = Fin dw,
              dieline_height = Fin dh \<rparr>
            \<lparr> rect_x = Fin x, rect_y = Fin y, rect_width = Fin w, rect_height = Fin h \<rparr>)
   \<and> (0 < w \<and> 0 < h
       \<and> round64 (x + w) = Fin (x + w) \<and> round64 (dx + dw) = Fin (dx + dw)
       \<and> round64 (y + h) = Fin (y + h) \<and> round64 (dy + dh) = Fin (dy + dh)
       \<and> (dx + dw < x + w \<or> dy + dh < y + h)
      \<longrightarrow> \<not> isInsideDieline
            \<lparr> dieline_x = Fin dx, dieline_y = Fin dy, dieline_width = Fin dw,
              dieline_height = Fin dh \<rparr>
            \<lparr> rect_x = Fin x, rect_y = Fin y, rect_width = Fin w, rect_height = Fin h \<rparr>)
   \<and> (w \<le> 0 \<or> h \<le> 0
      \<longrightarrow> isInsideDieline d
            \<lparr> rect_x = px, rect_y = py, rect_width = Fin w, rect_height = Fin h \<rparr>)"
proof (intro conjI impI)
  show "isInsideDieline
     \<lparr> dieline_x = Fin dx, dieline_y = Fin dy, dieline_width = Fin dw, dieline_height = Fin dh \<rparr>
     \<lparr> rect_x = Fin x, rect_y = Fin y, rect_width = Fin w, rect_height = Fin h \<rparr>
   = (w \<le> 0 \<or> h \<le> 0
      \<or> (dx \<le> x \<and> dy \<le> y \<and> jle (round64 (x + w)) (round64 (dx + dw))
         \<and> jle (round64 (y + h)) (round64 (dy + dh))))"
    by (rule isInsideDieline_Fin)
next
  assume a: "dx \<le> x \<and> dy \<le> y \<and> x + w \<le> dx + dw \<and> y + h \<le> dy + dh"
  then have "jle (round64 (x + w)) (round64 (dx + dw))"
    and "jle (round64 (y + h)) (round64 (dy + dh))"
    by (simp_all add: round64_mono)
  with a show "isInsideDieline
            \<lparr> dieline_x = Fin dx, dieline_y = Fin dy, dieline_width = Fin dw,
              dieline_height = Fin dh \<rparr>
            \<lparr> rect_x = Fin x, rect_y = Fin y, rect_width = Fin w, rect_height = Fin h \<rparr>"
    by (simp only: isInsideDieline_Fin) simp
next
  assume "0 < w \<and> 0 < h \<and> (x < dx \<or> y < dy)"
  then show "\<not> isInsideDieline
            \<lparr> dieline_x = Fin dx, dieline_y = Fin dy, dieline_width = Fin dw,
              dieline_height = Fin dh \<rparr>
            \<lparr> rect_x = Fin x, rect_y = Fin y, rect_width = Fin w, rect_height = Fin h \<rparr>"
    by (simp only: isInsideDieline_Fin) auto
next
  assume "0 < w \<and> 0 < h
       \<and> round64 (x + w) = Fin (x + w) \<and> round64 (dx + dw) = Fin (dx + dw)
       \<and> round64 (y + h) = Fin (y + h) \<and> round64 (dy + dh) = Fin (dy + dh)
       \<and> (dx + dw < x + w \<or> dy + dh < y + h)"
  then show "\<not> isInsideDieline
            \<lparr> dieline_x = Fin dx, dieline_y = Fin dy, dieline_width = Fin dw,
              dieline_height = Fin dh \<rparr>
            \<lparr> rect_x = Fin x, rect_y = Fin y, rect_width = Fin w, rect_height = Fin h \<rparr>"
    by (simp only: isInsideDieline_Fin) (auto simp add: jle_def)
next
  assume "w \<le> 0 \<or> h \<le> 0"
  then show "isInsideDieline d
            \<lparr> rect_x = px, rect_y = py, rect_width = Fin w, rect_height = Fin h \<rparr>"
    by (auto simp add: isInsideDieline_def jle_def)
qed

theorem isInsideDieline_rounded_witness:
  "isInsideDieline
     \<lparr> dieline_x = Fin 0, dieline_y = Fin 0, dieline_width = Fin 100, dieline_height = Fin 100 \<rparr>
     \<lparr> rect_x = Fin 10, rect_y = Fin 10, rect_width = Fin 20, rect_height = Fin 20 \<rparr>
   \<and> \<not> isInsideDieline
     \<lparr> dieline_x = Fin 0, dieline_y = Fin 0, dieline_width = Fin 100, dieline_height = Fin 100 \<rparr>
     \<lparr> rect_x = Fin (- 5), rect_y = Fin 10, rect_width = Fin 20, rect_height = Fin 20 \<rparr>
   \<and> \<not> isInsideDieline
     \<lparr> dieline_x = Fin 0, dieline_y = Fin 0, dieline_width = Fin 1, dieline_height = Fin 1 \<rparr>
     \<lparr> rect_x = Fin 1, rect_y = Fin 0, rect_width = Fin (1 / 2), rect_height = Fin 1 \<rparr>
   \<and> isInsideDieline
     \<lparr> dieline_x = Fin 0, dieline_y = Fin 0, dieline_width = Fin 100, dieline_height = Fin 100 \<rparr>
     \<lparr> rect_x = Fin 500, rect_y = PInf, rect_width = Fin 0, rect_height = Fin 10 \<rparr>"
proof (intro conjI)
  show "isInsideDieline
     \<lparr> dieline_x = Fin 0, dieline_y = Fin 0, dieline_width = Fin 100, dieline_height = Fin 100 \<rparr>
     \<lparr> rect_x = Fin 10, rect_y = Fin 10, rect_width = Fin 20, rect_height = Fin 20 \<rparr>"
    by (rule mp [OF isInsideDieline_rounded
          [where dx = 0 and dy = 0 and dw = 100 and dh = 100 and x = 10 and y = 10 and w = 20
             and h = 20, THEN conjunct2, THEN conjunct1]])
       simp
  show "\<not> isInsideDieline
     \<lparr> dieline_x = Fin 0, dieline_y = Fin 0, dieline_width = Fin 100, dieline_height = Fin 100 \<rparr>
     \<lparr> rect_x = Fin (- 5), rect_y = Fin 10, rect_width = Fin 20, rect_height = Fin 20 \<rparr>"
    by (rule mp [OF isInsideDieline_rounded
          [where dx = 0 and dy = 0 and dw = 100 and dh = 100 and x = "- 5" and y = 10
             and w = 20 and h = 20, THEN conjunct2, THEN conjunct2, THEN conjunct1]])
       simp
  have e: "round64 (1 + 1 / 2) = Fin (1 + 1 / 2)" "round64 (0 + 1) = Fin (0 + 1)"
    by (simp_all only: round64_three_halves add_0 round64_one)
  have p: "(0::real) < 1 / 2" "(0::real) < 1" "(0::real) + 1 < 1 + 1 / 2" by simp_all
  show "\<not> isInsideDieline
     \<lparr> dieline_x = Fin 0, dieline_y = Fin 0, dieline_width = Fin 1, dieline_height = Fin 1 \<rparr>
     \<lparr> rect_x = Fin 1, rect_y = Fin 0, rect_width = Fin (1 / 2), rect_height = Fin 1 \<rparr>"
    by (rule mp [OF isInsideDieline_rounded
          [where dx = 0 and dy = 0 and dw = 1 and dh = 1 and x = 1 and y = 0 and w = "1 / 2"
             and h = 1, THEN conjunct2, THEN conjunct2, THEN conjunct2, THEN conjunct1]])
       (intro conjI disjI1 e p)
  show "isInsideDieline
     \<lparr> dieline_x = Fin 0, dieline_y = Fin 0, dieline_width = Fin 100, dieline_height = Fin 100 \<rparr>
     \<lparr> rect_x = Fin 500, rect_y = PInf, rect_width = Fin 0, rect_height = Fin 10 \<rparr>"
    by (rule mp [OF isInsideDieline_rounded
          [where w = 0 and h = 10, THEN conjunct2, THEN conjunct2, THEN conjunct2,
             THEN conjunct2]])
       simp
qed

text \<open>
  A rect that overhangs the right edge by less than the rounding error of its own right
  edge is reported inside: \<^verbatim>\<open>1 + 2 ** -53\<close> is \<^verbatim>\<open>1\<close>.
\<close>

theorem tiny_overhang_reported_inside:
  "isInsideDieline
     \<lparr> dieline_x = Fin 0, dieline_y = Fin 0, dieline_width = Fin 1, dieline_height = Fin 1 \<rparr>
     \<lparr> rect_x = Fin 1, rect_y = Fin 0, rect_width = Fin (1 / 2 ^ 53), rect_height = Fin 1 \<rparr>
   \<and> (0 :: real) < 1 / 2 ^ 53
   \<and> (0 :: real) + 1 < 1 + 1 / 2 ^ 53"
proof -
  have a: "jle (round64 (1 + 1 / 2 ^ 53)) (round64 (0 + 1))"
    by (simp only: round64_one_plus_half_ulp add_0 round64_one) (simp add: jle_def)
  have b: "jle (round64 (0 + 1)) (round64 (0 + 1))"
    by (simp only: add_0 round64_one) (simp add: jle_def)
  have c: "(0::real) \<le> 1" "(0::real) \<le> 0" by simp_all
  have "isInsideDieline
     \<lparr> dieline_x = Fin 0, dieline_y = Fin 0, dieline_width = Fin 1, dieline_height = Fin 1 \<rparr>
     \<lparr> rect_x = Fin 1, rect_y = Fin 0, rect_width = Fin (1 / 2 ^ 53), rect_height = Fin 1 \<rparr>"
    unfolding isInsideDieline_Fin using a b c by blast
  then show ?thesis by simp
qed


section \<open>Preview store and synchronisation\<close>

lemma truncQuot_of_int: "truncQuot (360 * of_int k) 360 = k"
  by (simp add: truncQuot_def)

lemma jmod_360_zero_iff:
  "jeq (jmod (Fin r) (Fin 360)) (Fin 0) \<longleftrightarrow> (\<exists>k::int. r = 360 * of_int k)"
proof
  assume "jeq (jmod (Fin r) (Fin 360)) (Fin 0)"
  then have "r = 360 * of_int (truncQuot r 360)" by simp
  then show "\<exists>k::int. r = 360 * of_int k" by blast
next
  assume "\<exists>k::int. r = 360 * of_int k"
  then obtain k :: int where k: "r = 360 * of_int k" by blast
  show "jeq (jmod (Fin r) (Fin 360)) (Fin 0)"
    by (simp add: k truncQuot_of_int)
qed

lemma rotation_guard_iff:
  "jeq (jmod r (Fin 360)) (Fin 0) \<longleftrightarrow> (\<exists>k::int. r = Fin (360 * of_int k))"
  by (cases r) (simp_all add: jmod_360_zero_iff del: jmod.simps(1))

lemma updateFaceTextures_paused:
  assumes "\<not> (\<exists>k::int. canvasRotation env = Fin (360 * of_int k))"
  shows "updateFaceTextures cap env vs = vs"
  using assms by (simp add: updateFaceTextures_def rotation_guard_iff Let_def)

lemma set_BOX_FACE_ORDER: "k \<in> set BOX_FACE_ORDER"
  by (cases k) (simp_all add: BOX_FACE_ORDER_def)

lemma distinct_BOX_FACE_ORDER: "distinct BOX_FACE_ORDER"
  by (simp add: BOX_FACE_ORDER_def)

lemma set_objectKeys: "set (objectKeys u) = {k. u k \<noteq> None}"
  by (auto simp add: objectKeys_def set_BOX_FACE_ORDER)

lemma distinct_objectKeys: "distinct (objectKeys u)"
  by (simp add: objectKeys_def distinct_BOX_FACE_ORDER)

lemma fold_faceStep:
  "distinct ks \<Longrightarrow>
   fold (faceStep st u) ks (f, b) =
     ((\<lambda>k. if k \<in> set ks \<and> dataUrl (faces st k) \<noteq> payload u k
           then (faces st k)\<lparr>dataUrl := payload u k, version := version (faces st k) + 1\<rparr>
           else f k),
      b \<or> (\<exists>k \<in> set ks. dataUrl (faces st k) \<noteq> payload u k))"
proof (induction ks arbitrary: f b)
  case Nil
  then show ?case by simp
next
  case (Cons a ks)
  then show ?case
    by (auto simp add: faceStep_def Let_def payload_def fun_eq_iff)
qed

lemma faces_setFaceTextures:
  "faces (setFaceTextures u st) k =
     (case u k of
        None \<Rightarrow> faces st k
      | Some d \<Rightarrow>
          if dataUrl (faces st k) = d then faces st k
          else (faces st k)\<lparr>dataUrl := d, version := version (faces st k) + 1\<rparr>)"
proof (cases "objectKeys u = []")
  case True
  then have "u k = None" using set_objectKeys [of u] by auto
  with True show ?thesis by (simp add: setFaceTextures_def)
next
  case False
  show ?thesis
    using False
    by (auto simp add: setFaceTextures_def fold_faceStep distinct_objectKeys set_objectKeys
        payload_def split: option.splits)
qed


text \<open>
  On \<^verbatim>\<open>setFaceTextures\<close> calls the version rule holds. For every call and every face
  key: a key that is not supplied, or whose supplied payload equals the face's current
  payload, leaves the face as it is; a supplied payload that differs (also to or from
  \<^verbatim>\<open>null\<close>) is stored and the version goes up by exactly one. A repeated identical
  update changes nothing, and a face's version never goes down over any sequence of
  \<^verbatim>\<open>setFaceTextures\<close> calls. \<^verbatim>\<open>resetFaceTextures\<close> sets every version to 0.
\<close>

theorem setFaceTextures_versions:
  "faces (setFaceTextures u st) k =
     (case u k of
        None \<Rightarrow> faces st k
      | Some d \<Rightarrow>
          if dataUrl (faces st k) = d then faces st k
          else (faces st k)\<lparr>dataUrl := d, version := version (faces st k) + 1\<rparr>)
   \<and> setFaceTextures u (setFaceTextures u st) = setFaceTextures u st
   \<and> version (faces st k) \<le> version (faces (fold setFaceTextures us st) k)
   \<and> version (faces (resetFaceTextures st) k) = 0"
proof (intro conjI)
  show "faces (setFaceTextures u st) k =
     (case u k of
        None \<Rightarrow> faces st k
      | Some d \<Rightarrow>
          if dataUrl (faces st k) = d then faces st k
          else (faces st k)\<lparr>dataUrl := d, version := version (faces st k) + 1\<rparr>)"
    by (rule faces_setFaceTextures)
  have "faces (setFaceTextures u (setFaceTextures u st)) = faces (setFaceTextures u st)"
    by (rule ext) (simp add: faces_setFaceTextures split: option.splits)
  then show "setFaceTextures u (setFaceTextures u st) = setFaceTextures u st"
    by simp
  show "version (faces st k) \<le> version (faces (fold setFaceTextures us st) k)"
  proof (induction us arbitrary: st)
    case Nil
    show ?case by simp
  next
    case (Cons a us)
    have "version (faces st k) \<le> version (faces (setFaceTextures a st) k)"
      by (simp add: faces_setFaceTextures split: option.splits)
    also have "\<dots> \<le> version (faces (fold setFaceTextures us (setFaceTextures a st)) k)"
      by (rule Cons.IH)
    finally show ?case by simp
  qed
  show "version (faces (resetFaceTextures st) k) = 0"
    by (cases k)
       (simp_all add: resetFaceTextures_def createInitialFaces_def BOX_FACE_ORDER_def
          initialFace_def)
qed


text \<open>
  C5. While the canvas rotation the callback reads is not a multiple of 360 degrees
  (a non-finite rotation included), a synchronisation run returns before it hides a
  layer or captures a face: over any sequence of such runs the stage and every face's
  payload and version stay as they were.
\<close>

theorem sync_paused_while_rotated:
  assumes "\<forall>run \<in> set runs. \<not> (\<exists>k::int. canvasRotation (snd run) = Fin (360 * of_int k))"
  shows "syncRuns runs (view, st) = (view, st)"
  using assms
proof (induction runs)
  case Nil
  show ?case by simp
next
  case (Cons run runs)
  then show ?case by (simp add: updateFaceTextures_paused)
qed

lemma ninety_not_multiple: "\<not> (\<exists>k::int. Fin 90 = Fin (360 * of_int k))"
proof
  assume "\<exists>k::int. Fin 90 = Fin (360 * of_int k)"
  then obtain k :: int where "(90::real) = 360 * of_int k" by auto
  then have "real_of_int (4 * k) = real_of_int 1" by simp
  then have "4 * k = 1" by (simp only: of_int_eq_iff)
  then show False by presburger
qed

text \<open>
  At a rotation of 90 degrees a run changes nothing, whereas the same run at 0 degrees
  publishes.
\<close>

theorem sync_paused_while_rotated_witness:
  "syncRuns [(\<lambda>v r. Some ''data:png'', exampleEnv)] (exampleView, initialPreview)
   = (exampleView, initialPreview)
   \<and> updateFaceTextures (\<lambda>v r. Some ''data:png'') (exampleEnv\<lparr>canvasRotation := Fin 0\<rparr>)
       (exampleView, initialPreview) \<noteq> (exampleView, initialPreview)"
proof
  show "syncRuns [(\<lambda>v r. Some ''data:png'', exampleEnv)] (exampleView, initialPreview)
   = (exampleView, initialPreview)"
    using sync_paused_while_rotated
      [of "[(\<lambda>v r. Some ''data:png'', exampleEnv)]" exampleView initialPreview]
      ninety_not_multiple
    by (simp add: exampleEnv_def)
  have "version (faces (snd (updateFaceTextures (\<lambda>v r. Some ''data:png'')
          (exampleEnv\<lparr>canvasRotation := Fin 0\<rparr>) (exampleView, initialPreview))) FaceFront) = 1"
    by (simp add: updateFaceTextures_def exampleEnv_def exampleView_def Let_def
        BOX_FACE_ORDER_def objectKeys_def faces_setFaceTextures jle_def jgt_def
        TARGET_TEXTURE_RESOLUTION_def MAX_TEXTURE_PIXEL_RATIO_def initialPreview_def
        createInitialFaces_def initialFace_def truncQuot_def)
  moreover have "version (faces initialPreview FaceFront) = 0"
    by (simp add: initialPreview_def createInitialFaces_def initialFace_def BOX_FACE_ORDER_def)
  ultimately show "updateFaceTextures (\<lambda>v r. Some ''data:png'')
       (exampleEnv\<lparr>canvasRotation := Fin 0\<rparr>)
       (exampleView, initialPreview) \<noteq> (exampleView, initialPreview)"
    by (metis snd_conv zero_neq_one)
qed


section \<open>Undo history\<close>

lemma updateNode_cases:
  "updateNode i u c st = st
   \<or> (c = Some False \<and> past (updateNode i u c st) = past st
        \<and> future (updateNode i u c st) = future st)
   \<or> (c \<noteq> Some False \<and> past (updateNode i u c st) = past st @ [nodes st]
        \<and> future (updateNode i u c st) = [])"
  by (simp add: updateNode_def Let_def split: option.splits prod.splits)

lemma committing_edit_cases:
  assumes "committing e"
  shows "applyEdit e st = st
         \<or> (past (applyEdit e st) = past st @ [nodes st] \<and> future (applyEdit e st) = [])"
proof (cases e)
  case (UpdateNode i u c)
  with assms updateNode_cases [of i u c st] show ?thesis by auto
qed (simp_all add: setNodes_def addNode_def deleteSelection_def rotateSelectionClockwise_def
       bringSelectionToFront_def sendSelectionBackward_def Let_def split: option.splits)

lemma hist_applyEdits:
  assumes "\<forall>e \<in> set es. committing e"
  shows "\<exists>xs. hist (applyEdits es st) = hist st @ xs
              \<and> length (past (applyEdits es st)) = length (past st) + length xs
              \<and> length xs \<le> length es"
  using assms
proof (induction es arbitrary: st)
  case Nil
  show ?case by simp
next
  case (Cons e es)
  then have c: "committing e" and cs: "\<forall>e \<in> set es. committing e" by simp_all
  obtain xs where xs: "hist (applyEdits es (applyEdit e st)) = hist (applyEdit e st) @ xs"
      "length (past (applyEdits es (applyEdit e st))) = length (past (applyEdit e st)) + length xs"
      "length xs \<le> length es"
    using Cons.IH [OF cs, of "applyEdit e st"] by blast
  from committing_edit_cases [OF c, of st] show ?case
  proof
    assume "applyEdit e st = st"
    with xs show ?thesis by auto
  next
    assume "past (applyEdit e st) = past st @ [nodes st] \<and> future (applyEdit e st) = []"
    then have "hist (applyEdit e st) = hist st @ [nodes (applyEdit e st)]"
      and "length (past (applyEdit e st)) = Suc (length (past st))"
      by (simp_all add: hist_def)
    with xs have "hist (applyEdits (e # es) st) = hist st @ (nodes (applyEdit e st) # xs)
        \<and> length (past (applyEdits (e # es) st)) = length (past st) + length (nodes (applyEdit e st) # xs)
        \<and> length (nodes (applyEdit e st) # xs) \<le> length (e # es)"
      by simp
    then show ?thesis by blast
  qed
qed

lemma allPush_length:
  "allPush es st \<Longrightarrow> length (past (applyEdits es st)) = length (past st) + length es"
  by (induction es arbitrary: st) auto

lemma hist_undo:
  "hist (undo st) = (if past st = [] then hist st else butlast (hist st))"
  by (simp add: undo_def hist_def Let_def butlast_append)

lemma past_undo: "length (past (undo st)) = length (past st) - 1"
  by (simp add: undo_def Let_def)

lemma hist_undo_pow:
  "hist ((undo ^^ k) st) = take (length (hist st) - min k (length (past st))) (hist st)
   \<and> length (past ((undo ^^ k) st)) = length (past st) - k"
proof (induction k)
  case 0
  show ?case by simp
next
  case (Suc k)
  let ?s = "(undo ^^ k) st"
  have h: "hist ?s = take (length (hist st) - min k (length (past st))) (hist st)"
    and l: "length (past ?s) = length (past st) - k"
    using Suc by simp_all
  have hl: "length (hist st) = Suc (length (past st))" by (simp add: hist_def)
  show ?case
  proof (cases "past ?s = []")
    case True
    with l have "length (past st) \<le> k" by simp
    with True h l show ?thesis by (simp add: hist_undo past_undo min_def)
  next
    case False
    with l have lt: "k < length (past st)" by (cases "k < length (past st)") simp_all
    have "hist (undo ?s) = butlast (hist ?s)" using False by (simp add: hist_undo)
    also have "\<dots> = take (length (hist st) - Suc k) (hist st)"
      using lt hl by (simp add: h butlast_take min_def)
    finally show ?thesis using lt l by (simp add: past_undo min_def)
  qed
qed

lemma hist_eq_nodes: "hist a = hist b \<Longrightarrow> nodes a = nodes b \<and> past a = past b"
  by (simp add: hist_def)

lemma undo_after_edits:
  assumes c: "\<forall>e \<in> set es. committing e"
    and k: "k = length (past (applyEdits es st)) - length (past st)
            \<or> (k = length es \<and> (past st = [] \<or> allPush es st))"
  shows "hist ((undo ^^ k) (applyEdits es st)) = hist st"
proof -
  let ?s = "applyEdits es st"
  obtain xs where xs: "hist ?s = hist st @ xs"
      "length (past ?s) = length (past st) + length xs" "length xs \<le> length es"
    using hist_applyEdits [OF c, of st] by blast
  have hl: "length (hist st) = Suc (length (past st))" by (simp add: hist_def)
  have "min k (length (past ?s)) = length xs"
    using k
  proof
    assume "k = length (past ?s) - length (past st)"
    with xs show ?thesis by simp
  next
    assume a: "k = length es \<and> (past st = [] \<or> allPush es st)"
    then show ?thesis
    proof (cases "past st = []")
      case True
      with a xs show ?thesis by simp
    next
      case False
      with a have "allPush es st" by simp
      from allPush_length [OF this] xs a show ?thesis by simp
    qed
  qed
  then have "hist ((undo ^^ k) ?s) = take (length (hist st)) (hist st @ xs)"
    using hist_undo_pow [of k ?s] xs by simp
  then show ?thesis by simp
qed


text \<open>
  C1. After any sequence of committing edits, one \<^verbatim>\<open>undo\<close> for every entry the edits
  pushed on \<open>past\<close> brings the nodes, and \<open>past\<close>, back to their values before the first
  edit. An edit that its guard turns into a no-op pushes nothing; \<open>n\<close> undos after \<open>n\<close>
  edits restore the nodes when every edit pushed an entry, or when \<open>past\<close> was empty
  before the first edit.
\<close>

theorem undo_restores_nodes:
  assumes "\<forall>e \<in> set es. committing e"
  shows "nodes ((undo ^^ (length (past (applyEdits es st)) - length (past st))) (applyEdits es st))
           = nodes st
         \<and> past ((undo ^^ (length (past (applyEdits es st)) - length (past st))) (applyEdits es st))
           = past st
         \<and> (past st = [] \<or> allPush es st
              \<longrightarrow> nodes ((undo ^^ length es) (applyEdits es st)) = nodes st)"
proof (intro conjI impI)
  have "hist ((undo ^^ (length (past (applyEdits es st)) - length (past st))) (applyEdits es st))
          = hist st"
    using assms by (rule undo_after_edits) simp
  from hist_eq_nodes [OF this]
  show "nodes ((undo ^^ (length (past (applyEdits es st)) - length (past st)))
               (applyEdits es st)) = nodes st"
    and "past ((undo ^^ (length (past (applyEdits es st)) - length (past st)))
               (applyEdits es st)) = past st"
    by blast+
next
  assume "past st = [] \<or> allPush es st"
  then have "hist ((undo ^^ length es) (applyEdits es st)) = hist st"
    using assms undo_after_edits [of es "length es" st] by blast
  from hist_eq_nodes [OF this]
  show "nodes ((undo ^^ length es) (applyEdits es st)) = nodes st"
    by blast
qed

text \<open>Three committing edits on the initial state, the second a no-op, then three undos.\<close>

theorem undo_restores_nodes_witness:
  "committing (AddNode exampleNode) \<and> committing DeleteSelection \<and> committing (SetNodes [])
   \<and> nodes ((undo ^^ 3)
        (applyEdits [AddNode exampleNode, DeleteSelection, SetNodes []] initialState))
      = nodes initialState"
proof -
  have c: "\<forall>e \<in> set [AddNode exampleNode, DeleteSelection, SetNodes []]. committing e"
    by simp
  have p: "past initialState = []" by (simp add: initialState_def)
  from undo_restores_nodes [OF c, of initialState] p show ?thesis
    by (simp add: eval_nat_numeral)
qed

text \<open>
  With one node added, \<^verbatim>\<open>deleteSelection\<close> on an empty selection is a committing edit
  that pushes nothing, and the one \<^verbatim>\<open>undo\<close> after it removes the node.
\<close>

theorem undo_overshoots_after_noop_edit:
  "committing DeleteSelection
   \<and> nodes ((undo ^^ 1) (applyEdits [DeleteSelection] (addNode exampleNode initialState)))
     \<noteq> nodes (addNode exampleNode initialState)"
  by (simp add: addNode_def initialState_def deleteSelection_def undo_def Let_def)

lemma redo_undo:
  "past st \<noteq> [] \<Longrightarrow> redo (undo st) = st\<lparr>selection := []\<rparr>"
  by (simp add: undo_def redo_def Let_def)

text \<open>
  C2. An \<^verbatim>\<open>undo\<close> on a non-empty \<open>past\<close> followed at once by \<^verbatim>\<open>redo\<close> gives the state
  back, nodes and both stacks, with the selection cleared. A committing edit that changes
  the state (after an undo or at any other time) leaves \<open>future\<close> empty, so a \<^verbatim>\<open>redo\<close>
  after it changes nothing.
\<close>

theorem undo_redo_roundtrip:
  "(past st \<noteq> [] \<longrightarrow> redo (undo st) = st\<lparr>selection := []\<rparr>)
   \<and> (committing e \<and> applyEdit e s \<noteq> s
        \<longrightarrow> future (applyEdit e s) = [] \<and> redo (applyEdit e s) = applyEdit e s)"
proof (intro conjI impI)
  assume "past st \<noteq> []"
  then show "redo (undo st) = st\<lparr>selection := []\<rparr>" by (rule redo_undo)
next
  assume a: "committing e \<and> applyEdit e s \<noteq> s"
  with committing_edit_cases [of e s] show f: "future (applyEdit e s) = []" by blast
  then show "redo (applyEdit e s) = applyEdit e s" by (simp add: redo_def)
qed

text \<open>Undo and redo of an added node, and \<^verbatim>\<open>setNodes\<close> after the undo.\<close>

theorem undo_redo_roundtrip_witness:
  "past (addNode exampleNode initialState) \<noteq> []
   \<and> nodes (redo (undo (addNode exampleNode initialState)))
       = nodes (addNode exampleNode initialState)
   \<and> committing (SetNodes [exampleNode, exampleNode])
   \<and> applyEdit (SetNodes [exampleNode, exampleNode]) (undo (addNode exampleNode initialState))
       \<noteq> undo (addNode exampleNode initialState)
   \<and> redo (applyEdit (SetNodes [exampleNode, exampleNode])
        (undo (addNode exampleNode initialState)))
       = applyEdit (SetNodes [exampleNode, exampleNode]) (undo (addNode exampleNode initialState))"
proof -
  have p: "past (addNode exampleNode initialState) \<noteq> []"
    by (simp add: addNode_def)
  have n: "applyEdit (SetNodes [exampleNode, exampleNode]) (undo (addNode exampleNode initialState))
       \<noteq> undo (addNode exampleNode initialState)"
  proof
    assume "applyEdit (SetNodes [exampleNode, exampleNode]) (undo (addNode exampleNode initialState))
       = undo (addNode exampleNode initialState)"
    then have "nodes (applyEdit (SetNodes [exampleNode, exampleNode])
         (undo (addNode exampleNode initialState)))
       = nodes (undo (addNode exampleNode initialState))" by simp
    then show False by (simp add: setNodes_def undo_def addNode_def initialState_def Let_def)
  qed
  from undo_redo_roundtrip
    [of "addNode exampleNode initialState" "SetNodes [exampleNode, exampleNode]"
        "undo (addNode exampleNode initialState)"] p n
  show ?thesis by simp
qed

text \<open>
  An \<^verbatim>\<open>undo\<close> on an empty \<open>past\<close> does nothing, yet the \<^verbatim>\<open>redo\<close> after it replays the
  future; and after an undo, \<^verbatim>\<open>deleteSelection\<close> (the selection is empty then) keeps
  \<open>future\<close>, so \<^verbatim>\<open>redo\<close> still changes the state.
\<close>

theorem redo_after_noop_undo_or_noop_edit:
  "nodes (redo (undo (undo (addNode exampleNode initialState))))
     \<noteq> nodes (undo (addNode exampleNode initialState))
   \<and> committing DeleteSelection
   \<and> future (applyEdit DeleteSelection (undo (addNode exampleNode initialState))) \<noteq> []
   \<and> redo (applyEdit DeleteSelection (undo (addNode exampleNode initialState)))
     \<noteq> applyEdit DeleteSelection (undo (addNode exampleNode initialState))"
proof -
  have u: "undo (addNode exampleNode initialState)
      = initialState\<lparr>future := [[exampleNode]]\<rparr>"
    by (simp add: undo_def addNode_def initialState_def Let_def)
  have uu: "undo (initialState\<lparr>future := [[exampleNode]]\<rparr>) = initialState\<lparr>future := [[exampleNode]]\<rparr>"
    by (simp add: undo_def initialState_def)
  have d: "deleteSelection (initialState\<lparr>future := [[exampleNode]]\<rparr>)
      = initialState\<lparr>future := [[exampleNode]]\<rparr>"
    by (simp add: deleteSelection_def initialState_def)
  have r: "nodes (redo (initialState\<lparr>future := [[exampleNode]]\<rparr>)) = [exampleNode]"
    by (simp add: redo_def)
  have n: "nodes (initialState\<lparr>future := [[exampleNode]]\<rparr>) = []"
    by (simp add: initialState_def)
  have ne: "redo (initialState\<lparr>future := [[exampleNode]]\<rparr>) \<noteq> initialState\<lparr>future := [[exampleNode]]\<rparr>"
    using r n by (metis list.distinct(1))
  show ?thesis using r n ne by (simp add: u uu d)
qed

lemma liveUpdates_history:
  "past (liveUpdates i us st) = past st \<and> future (liveUpdates i us st) = future st"
proof (induction us arbitrary: st)
  case Nil
  show ?case by (simp add: liveUpdates_def)
next
  case (Cons u us)
  have "past (updateNode i u (Some False) st) = past st
      \<and> future (updateNode i u (Some False) st) = future st"
    using updateNode_cases [of i u "Some False" st] by auto
  moreover have "liveUpdates i (u # us) st = liveUpdates i us (updateNode i u (Some False) st)"
    by (simp add: liveUpdates_def)
  ultimately show ?case using Cons.IH [of "updateNode i u (Some False) st"] by simp
qed

text \<open>
  Any number of \<^verbatim>\<open>updateNode\<close> calls with \<^verbatim>\<open>commit: false\<close> leave \<open>past\<close> and
  \<open>future\<close> as they were. A committing \<^verbatim>\<open>updateNode\<close> after them that changes the state
  pushes exactly one entry, the nodes as they are just before that call (the live
  updates included), and empties \<open>future\<close>.
\<close>

lemma live_updates_then_commit:
  "past (liveUpdates i us st) = past st
   \<and> future (liveUpdates i us st) = future st
   \<and> (c \<noteq> Some False \<and> updateNode i u c (liveUpdates i us st) \<noteq> liveUpdates i us st
        \<longrightarrow> past (updateNode i u c (liveUpdates i us st))
              = past st @ [nodes (liveUpdates i us st)]
            \<and> future (updateNode i u c (liveUpdates i us st)) = [])"
  using liveUpdates_history [of i us st] updateNode_cases [of i u c "liveUpdates i us st"]
  by auto


lemma example_live:
  "liveUpdates ''n1'' [rotateTo 10, rotateTo 15] draggedState
   = draggedState\<lparr>nodes := [exampleNode\<lparr>node_data :=
        Some [(''assetId'', JString ''a1''), (''x'', JNumber (Fin 100)),
              (''y'', JNumber (Fin 100)), (''rotation'', JNumber (Fin 15))]\<rparr>]\<rparr>"
  by (simp add: liveUpdates_def rotateTo_def draggedState_def addNode_def initialState_def
      updateNode_def exampleNode_def hasShallowChanges_def getField_def Let_def)

lemma example_commit:
  "updateNode ''n1'' (rotateTo 20) None
     (liveUpdates ''n1'' [rotateTo 10, rotateTo 15] draggedState)
   = draggedState\<lparr>nodes := [exampleNode\<lparr>node_data :=
        Some [(''assetId'', JString ''a1''), (''x'', JNumber (Fin 100)),
              (''y'', JNumber (Fin 100)), (''rotation'', JNumber (Fin 20))]\<rparr>],
       past := [[], [exampleNode\<lparr>node_data :=
        Some [(''assetId'', JString ''a1''), (''x'', JNumber (Fin 100)),
              (''y'', JNumber (Fin 100)), (''rotation'', JNumber (Fin 15))]\<rparr>]],
       future := []\<rparr>"
  unfolding example_live
  by (simp add: rotateTo_def draggedState_def addNode_def initialState_def
      updateNode_def exampleNode_def hasShallowChanges_def getField_def Let_def)

lemma example_commit_same:
  "updateNode ''n1'' (rotateTo 15) None
     (liveUpdates ''n1'' [rotateTo 10, rotateTo 15] draggedState)
   = liveUpdates ''n1'' [rotateTo 10, rotateTo 15] draggedState"
  unfolding example_live
  by (simp add: rotateTo_def draggedState_def addNode_def initialState_def
      updateNode_def exampleNode_def hasShallowChanges_def getField_def Let_def)

text \<open>Two live rotations of a node, then a committing rotation to another angle.\<close>

lemma live_updates_then_commit_example:
  "(None :: bool option) \<noteq> Some False
   \<and> past (updateNode ''n1'' (rotateTo 20) None
        (liveUpdates ''n1'' [rotateTo 10, rotateTo 15] draggedState))
     = past draggedState @ [nodes (liveUpdates ''n1'' [rotateTo 10, rotateTo 15] draggedState)]"
proof -
  have "nodes (updateNode ''n1'' (rotateTo 20) None
        (liveUpdates ''n1'' [rotateTo 10, rotateTo 15] draggedState))
     \<noteq> nodes (liveUpdates ''n1'' [rotateTo 10, rotateTo 15] draggedState)"
    unfolding example_commit unfolding example_live by (simp add: exampleNode_def)
  then have "updateNode ''n1'' (rotateTo 20) None
        (liveUpdates ''n1'' [rotateTo 10, rotateTo 15] draggedState)
     \<noteq> liveUpdates ''n1'' [rotateTo 10, rotateTo 15] draggedState"
    by metis
  with live_updates_then_commit
    [of "''n1''" "[rotateTo 10, rotateTo 15]" draggedState None "rotateTo 20"]
  show ?thesis by simp
qed

text \<open>
  C3. A gesture is to be one step of the history: live updates with \<^verbatim>\<open>commit: false\<close>,
  then one committing update that records the nodes as they were before the gesture.
  The store misses this. The committing call of the rotate gesture repeats the last live
  value, so \<^verbatim>\<open>updateNode\<close> finds no shallow change and returns the state: no entry is
  pushed, and the next \<^verbatim>\<open>undo\<close> takes back the edit made before the gesture (here it
  removes the node). When the committing call does change the data, the entry pushed
  holds the nodes with the live updates applied, not the nodes before the gesture.
\<close>

theorem gesture_leaves_no_undo_entry:
  "past (updateNode ''n1'' (rotateTo 15) None
        (liveUpdates ''n1'' [rotateTo 10, rotateTo 15] draggedState))
     = past draggedState
   \<and> nodes draggedState = [exampleNode]
   \<and> nodes (undo (updateNode ''n1'' (rotateTo 15) None
        (liveUpdates ''n1'' [rotateTo 10, rotateTo 15] draggedState))) = []
   \<and> past (updateNode ''n1'' (rotateTo 20) None
        (liveUpdates ''n1'' [rotateTo 10, rotateTo 15] draggedState))
     \<noteq> past draggedState @ [nodes draggedState]"
proof (intro conjI)
  show "past (updateNode ''n1'' (rotateTo 15) None
        (liveUpdates ''n1'' [rotateTo 10, rotateTo 15] draggedState))
     = past draggedState"
    unfolding example_commit_same by (simp add: liveUpdates_history)
  show "nodes draggedState = [exampleNode]"
    by (simp add: draggedState_def addNode_def initialState_def)
  show "nodes (undo (updateNode ''n1'' (rotateTo 15) None
        (liveUpdates ''n1'' [rotateTo 10, rotateTo 15] draggedState))) = []"
    unfolding example_commit_same unfolding example_live
    by (simp add: undo_def draggedState_def addNode_def initialState_def Let_def)
  show "past (updateNode ''n1'' (rotateTo 20) None
        (liveUpdates ''n1'' [rotateTo 10, rotateTo 15] draggedState))
     \<noteq> past draggedState @ [nodes draggedState]"
    unfolding example_commit
    by (simp add: draggedState_def addNode_def initialState_def exampleNode_def)
qed

section \<open>Text metrics\<close>

lemma isFinite_iff: "isFinite v \<longleftrightarrow> (\<exists>r. v = Fin r)"
  by (cases v) simp_all

lemma repaired_fontSize:
  "fontSize (withUpdatedTextMetrics ctx d u) =
     (let m = mergeField (fontSize d) (upd_fontSize u)
      in if \<not> isFinite m \<or> jle m (Fin 0) then jmax (Fin 12) (fontSize d) else m)"
  by (auto simp add: withUpdatedTextMetrics_def mergeText_def Let_def)

lemma repaired_letterSpacing:
  "letterSpacing (withUpdatedTextMetrics ctx d u) =
     (let m = mergeField (letterSpacing d) (upd_letterSpacing u)
      in if \<not> isFinite m then letterSpacing d else m)"
  by (auto simp add: withUpdatedTextMetrics_def mergeText_def Let_def)

lemma repaired_radius:
  "radius (withUpdatedTextMetrics ctx d u) =
     (let m = mergeField (radius d) (upd_radius u)
      in if \<not> isFinite m \<or> jeq m (Fin 0) then jor (radius d) (Fin 150) else m)"
  by (auto simp add: withUpdatedTextMetrics_def mergeText_def Let_def)

lemma repaired_angle:
  "angle (withUpdatedTextMetrics ctx d u) =
     (let m = mergeField (angle d) (upd_angle u)
      in if \<not> isFinite m then angle d else m)"
  by (auto simp add: withUpdatedTextMetrics_def mergeText_def Let_def)

text \<open>
  C7. \<^verbatim>\<open>withUpdatedTextMetrics\<close> is a total function of the data, the updates and the
  measuring context. A merged radius that is zero or not finite is replaced by the
  previous radius, or by 150 when that is zero or \<open>NaN\<close>. When the record's own font size
  is finite and positive, its letter spacing and angle finite and its radius finite and
  not zero, then for every update the result has a finite positive font size, a finite
  letter spacing and angle and a finite radius that is not zero.
\<close>

theorem withUpdatedTextMetrics_repairs:
  "radius (withUpdatedTextMetrics ctx d u) =
     (let m = mergeField (radius d) (upd_radius u)
      in if \<not> isFinite m \<or> jeq m (Fin 0) then jor (radius d) (Fin 150) else m)
   \<and> (isFinite (fontSize d) \<and> jgt (fontSize d) (Fin 0) \<and> isFinite (letterSpacing d)
        \<and> isFinite (angle d) \<and> isFinite (radius d) \<and> \<not> jeq (radius d) (Fin 0)
      \<longrightarrow> isFinite (fontSize (withUpdatedTextMetrics ctx d u))
          \<and> jgt (fontSize (withUpdatedTextMetrics ctx d u)) (Fin 0)
          \<and> isFinite (letterSpacing (withUpdatedTextMetrics ctx d u))
          \<and> isFinite (angle (withUpdatedTextMetrics ctx d u))
          \<and> isFinite (radius (withUpdatedTextMetrics ctx d u))
          \<and> \<not> jeq (radius (withUpdatedTextMetrics ctx d u)) (Fin 0))"
proof (intro conjI impI)
  show "radius (withUpdatedTextMetrics ctx d u) =
     (let m = mergeField (radius d) (upd_radius u)
      in if \<not> isFinite m \<or> jeq m (Fin 0) then jor (radius d) (Fin 150) else m)"
    by (rule repaired_radius)
next
  assume a: "isFinite (fontSize d) \<and> jgt (fontSize d) (Fin 0) \<and> isFinite (letterSpacing d)
        \<and> isFinite (angle d) \<and> isFinite (radius d) \<and> \<not> jeq (radius d) (Fin 0)"
  then obtain fs where fs: "fontSize d = Fin fs" "0 < fs"
    by (auto simp add: isFinite_iff jgt_def)
  from a obtain rd where rd: "radius d = Fin rd" "rd \<noteq> 0"
    by (auto simp add: isFinite_iff)
  show "isFinite (fontSize (withUpdatedTextMetrics ctx d u))"
    using fs by (cases "mergeField (fontSize d) (upd_fontSize u)")
      (simp_all add: repaired_fontSize Let_def)
  show "jgt (fontSize (withUpdatedTextMetrics ctx d u)) (Fin 0)"
    using fs by (cases "mergeField (fontSize d) (upd_fontSize u)")
      (auto simp add: repaired_fontSize Let_def jgt_def jle_def)
  show "isFinite (letterSpacing (withUpdatedTextMetrics ctx d u))"
    using a by (simp add: repaired_letterSpacing Let_def)
  show "isFinite (angle (withUpdatedTextMetrics ctx d u))"
    using a by (simp add: repaired_angle Let_def)
  show "isFinite (radius (withUpdatedTextMetrics ctx d u))"
    using rd by (simp add: repaired_radius Let_def jor_def)
  show "\<not> jeq (radius (withUpdatedTextMetrics ctx d u)) (Fin 0)"
    using rd by (simp add: repaired_radius Let_def jor_def)
qed

lemma empty_text_layout:
  "computeCurvedTextLayout ctx [] family fs weight ls rad ang
   = \<lparr> glyphs = [], layout_width = jmax fs (Fin 1), layout_height = jmax fs (Fin 1) \<rparr>"
  by (simp add: computeCurvedTextLayout_def Let_def)

text \<open>An update whose four numbers are \<open>NaN\<close>, infinite or zero is repaired.\<close>

theorem withUpdatedTextMetrics_repairs_witness:
  "isFinite (fontSize exampleText) \<and> jgt (fontSize exampleText) (Fin 0)
   \<and> isFinite (letterSpacing exampleText) \<and> isFinite (angle exampleText)
   \<and> isFinite (radius exampleText) \<and> \<not> jeq (radius exampleText) (Fin 0)
   \<and> isFinite (fontSize (withUpdatedTextMetrics None exampleText badUpdates))
   \<and> jgt (fontSize (withUpdatedTextMetrics None exampleText badUpdates)) (Fin 0)
   \<and> isFinite (letterSpacing (withUpdatedTextMetrics None exampleText badUpdates))
   \<and> isFinite (angle (withUpdatedTextMetrics None exampleText badUpdates))
   \<and> isFinite (radius (withUpdatedTextMetrics None exampleText badUpdates))
   \<and> \<not> jeq (radius (withUpdatedTextMetrics None exampleText badUpdates)) (Fin 0)"
proof -
  have h: "isFinite (fontSize exampleText) \<and> jgt (fontSize exampleText) (Fin 0)
      \<and> isFinite (letterSpacing exampleText) \<and> isFinite (angle exampleText)
      \<and> isFinite (radius exampleText) \<and> \<not> jeq (radius exampleText) (Fin 0)"
    by (simp add: exampleText_def jgt_def)
  from withUpdatedTextMetrics_repairs [of None exampleText badUpdates] h
  show ?thesis by blast
qed

section \<open>Curved text\<close>

lemma length_placeGlyphs: "length (placeGlyphs ps index prog cws) = length cws"
  by (induction cws arbitrary: index prog) (simp_all add: Let_def)

lemma chars_placeGlyphs:
  "map g_char (placeGlyphs ps index prog cws) = map (\<lambda>cw. [fst cw]) cws"
  by (induction cws arbitrary: index prog) (simp_all add: Let_def)

lemma length_centerAngles [simp]: "length (centerAngles s prog as) = length as"
  by (induction as arbitrary: prog) simp_all

lemma centerAngles_Nil_iff [simp]: "centerAngles s prog as = [] \<longleftrightarrow> as = []"
  by (cases as) simp_all

lemma hd_centerAngles: "as \<noteq> [] \<Longrightarrow> hd (centerAngles s prog as) = s + prog + hd as / 2"
  by (cases as) simp_all

lemma last_le_sum_list: "\<forall>a \<in> set as. (0::real) \<le> a \<Longrightarrow> as \<noteq> [] \<Longrightarrow> last as \<le> sum_list as"
  by (induction as) (auto simp add: sum_list_nonneg)

lemma last_centerAngles:
  "as \<noteq> [] \<Longrightarrow> last (centerAngles s prog as) = s + prog + sum_list as - last as / 2"
proof (induction as arbitrary: prog)
  case Nil
  then show ?case by simp
next
  case (Cons a as)
  show ?case
  proof (cases "as = []")
    case True
    then show ?thesis by simp
  next
    case False
    with Cons.IH [OF False, of "prog + a"] show ?thesis by simp
  qed
qed

lemma centerAngles_lower:
  "\<forall>a \<in> set as. 0 \<le> a \<Longrightarrow> t \<in> set (centerAngles s prog as) \<Longrightarrow> s + prog + hd as / 2 \<le> t"
proof (induction as arbitrary: prog)
  case Nil
  then show ?case by simp
next
  case (Cons a as)
  from Cons.prems(2) have "t = s + prog + a / 2 \<or> t \<in> set (centerAngles s (prog + a) as)"
    by simp
  then show ?case
  proof
    assume "t = s + prog + a / 2"
    then show ?thesis by simp
  next
    assume t: "t \<in> set (centerAngles s (prog + a) as)"
    then have ne: "as \<noteq> []" by auto
    from Cons.prems(1) have nn: "\<forall>a \<in> set as. 0 \<le> a" and a: "0 \<le> a" by simp_all
    from nn ne have "0 \<le> hd as" by (cases as) simp_all
    with Cons.IH [OF nn t] a show ?thesis by simp
  qed
qed

lemma centerAngles_upper:
  "\<forall>a \<in> set as. 0 \<le> a \<Longrightarrow> t \<in> set (centerAngles s prog as)
   \<Longrightarrow> t \<le> s + prog + sum_list as - last as / 2"
proof (induction as arbitrary: prog)
  case Nil
  then show ?case by simp
next
  case (Cons a as)
  from Cons.prems(1) have nn: "\<forall>a \<in> set as. 0 \<le> a" and a: "0 \<le> a" by simp_all
  from Cons.prems(2) have "t = s + prog + a / 2 \<or> t \<in> set (centerAngles s (prog + a) as)"
    by simp
  then show ?case
  proof
    assume t: "t = s + prog + a / 2"
    show ?thesis
    proof (cases "as = []")
      case True
      with t show ?thesis by simp
    next
      case False
      from last_le_sum_list [OF nn False] nn False have "last as / 2 \<le> sum_list as"
        by (smt (verit) last_in_set field_sum_of_halves)
      with t a False show ?thesis by simp
    qed
  next
    assume t: "t \<in> set (centerAngles s (prog + a) as)"
    then have ne: "as \<noteq> []" by auto
    with Cons.IH [OF nn t] show ?thesis by simp
  qed
qed

lemma foldl_jadd_Fin: "foldl jadd (Fin a) (map Fin ws) = Fin (a + sum_list ws)"
  by (induction ws arbitrary: a) (simp_all add: add.assoc)

lemma foldl_jmin_Fin:
  assumes "\<forall>g \<in> set G. f g = Fin (v g)"
  shows "\<exists>m. foldl (\<lambda>m g. jmin m (f g)) (Fin a) G = Fin m
             \<and> (m = a \<or> m \<in> v ` set G) \<and> m \<le> a \<and> (\<forall>g \<in> set G. m \<le> v g)"
  using assms
proof (induction G arbitrary: a)
  case Nil
  show ?case by simp
next
  case (Cons g G)
  then have fg: "f g = Fin (v g)" and rest: "\<forall>g \<in> set G. f g = Fin (v g)" by simp_all
  from Cons.IH [OF rest, of "min a (v g)"]
  obtain m where m: "foldl (\<lambda>m g. jmin m (f g)) (Fin (min a (v g))) G = Fin m"
      "m = min a (v g) \<or> m \<in> v ` set G" "m \<le> min a (v g)" "\<forall>g \<in> set G. m \<le> v g"
    by blast
  have "foldl (\<lambda>m g. jmin m (f g)) (Fin a) (g # G) = Fin m"
    using m(1) by (simp only: foldl_Cons fg jmin_Fin)
  moreover have "m = a \<or> m \<in> v ` set (g # G)" using m(2) by (auto simp add: min_def split: if_splits)
  moreover have "m \<le> a" using m(3) by simp
  moreover have "\<forall>x \<in> set (g # G). m \<le> v x" using m(3,4) by simp
  ultimately show ?case by blast
qed

lemma foldl_jmin_PInf:
  assumes "\<forall>g \<in> set G. f g = Fin (v g)" and "G \<noteq> []"
  shows "\<exists>m. foldl (\<lambda>m g. jmin m (f g)) PInf G = Fin m
             \<and> m \<in> v ` set G \<and> (\<forall>g \<in> set G. m \<le> v g)"
proof -
  obtain g G' where G: "G = g # G'" using assms(2) by (cases G) auto
  with assms(1) have fg: "f g = Fin (v g)" and rest: "\<forall>g \<in> set G'. f g = Fin (v g)" by simp_all
  from foldl_jmin_Fin [OF rest, of "v g"]
  obtain m where m: "foldl (\<lambda>m g. jmin m (f g)) (Fin (v g)) G' = Fin m"
      "m = v g \<or> m \<in> v ` set G'" "m \<le> v g" "\<forall>g \<in> set G'. m \<le> v g"
    by blast
  have "foldl (\<lambda>m g. jmin m (f g)) PInf G = Fin m" using m(1) by (simp add: G fg)
  moreover have "m \<in> v ` set G" using m(2) G by auto
  moreover have "\<forall>x \<in> set G. m \<le> v x" using m(3,4) G by simp
  ultimately show ?thesis by blast
qed

lemma foldl_jmax_Fin:
  assumes "\<forall>g \<in> set G. f g = Fin (v g)"
  shows "\<exists>m. foldl (\<lambda>m g. jmax m (f g)) (Fin a) G = Fin m
             \<and> (m = a \<or> m \<in> v ` set G) \<and> a \<le> m \<and> (\<forall>g \<in> set G. v g \<le> m)"
  using assms
proof (induction G arbitrary: a)
  case Nil
  show ?case by simp
next
  case (Cons g G)
  then have fg: "f g = Fin (v g)" and rest: "\<forall>g \<in> set G. f g = Fin (v g)" by simp_all
  from Cons.IH [OF rest, of "max a (v g)"]
  obtain m where m: "foldl (\<lambda>m g. jmax m (f g)) (Fin (max a (v g))) G = Fin m"
      "m = max a (v g) \<or> m \<in> v ` set G" "max a (v g) \<le> m" "\<forall>g \<in> set G. v g \<le> m"
    by blast
  have "foldl (\<lambda>m g. jmax m (f g)) (Fin a) (g # G) = Fin m"
    using m(1) by (simp only: foldl_Cons fg jmax_Fin)
  moreover have "m = a \<or> m \<in> v ` set (g # G)" using m(2) by (auto simp add: max_def split: if_splits)
  moreover have "a \<le> m" using m(3) by simp
  moreover have "\<forall>x \<in> set (g # G). v x \<le> m" using m(3,4) by simp
  ultimately show ?case by blast
qed

lemma foldl_jmax_NInf:
  assumes "\<forall>g \<in> set G. f g = Fin (v g)" and "G \<noteq> []"
  shows "\<exists>m. foldl (\<lambda>m g. jmax m (f g)) NInf G = Fin m
             \<and> m \<in> v ` set G \<and> (\<forall>g \<in> set G. v g \<le> m)"
proof -
  obtain g G' where G: "G = g # G'" using assms(2) by (cases G) auto
  with assms(1) have fg: "f g = Fin (v g)" and rest: "\<forall>g \<in> set G'. f g = Fin (v g)" by simp_all
  from foldl_jmax_Fin [OF rest, of "v g"]
  obtain m where m: "foldl (\<lambda>m g. jmax m (f g)) (Fin (v g)) G' = Fin m"
      "m = v g \<or> m \<in> v ` set G'" "v g \<le> m" "\<forall>g \<in> set G'. v g \<le> m"
    by blast
  have "foldl (\<lambda>m g. jmax m (f g)) NInf G = Fin m" using m(1) by (simp add: G fg)
  moreover have "m \<in> v ` set G" using m(2) G by auto
  moreover have "\<forall>x \<in> set G. v x \<le> m" using m(3,4) G by simp
  ultimately show ?thesis by blast
qed


lemma placeGlyphs_Fin:
  assumes "arc_pxToAngle ps = Fin p" and "arc_startAngle ps = Fin s" and "arc_r ps = Fin r"
    and "length cs = length ws"
  shows "map g_x (placeGlyphs ps i (Fin prog) (zip cs (map Fin ws)))
           = map (\<lambda>t. Fin (r * cos t)) (centerAngles s prog (map (\<lambda>w. w * p) ws))
         \<and> map g_y (placeGlyphs ps i (Fin prog) (zip cs (map Fin ws)))
           = map (\<lambda>t. Fin (r * sin t)) (centerAngles s prog (map (\<lambda>w. w * p) ws))
         \<and> (\<forall>g \<in> set (placeGlyphs ps i (Fin prog) (zip cs (map Fin ws))).
               g_height g = arc_glyphHeight ps)"
  using assms(4)
proof (induction cs ws arbitrary: i prog rule: list_induct2)
  case Nil
  show ?case by simp
next
  case (Cons c cs w ws)
  from Cons.IH [of "Suc i" "prog + w * p"] show ?case
    by (simp add: Let_def assms(1,2,3))
qed

lemma layout_finite:
  assumes "t \<noteq> []"
    and "charWidths ctx (toCanvasFont weight (Fin fs) family) (Fin fs) ls t = map Fin ws"
    and "lastGlyphHeight ctx (toCanvasFont weight (Fin fs) family) (Fin fs) t = Fin h"
  shows "glyphs (computeCurvedTextLayout ctx t family (Fin fs) weight ls (Fin R) (Fin 180))
    = (let G = placeGlyphs (arcOf (length t) ls ws R h) 0 (Fin 0) (zip t (map Fin ws));
           minX = foldl (\<lambda>m g. jmin m (jsub (g_x g) (jdiv (g_width g) (Fin 2)))) PInf G;
           maxX = foldl (\<lambda>m g. jmax m (jadd (g_x g) (jdiv (g_width g) (Fin 2)))) NInf G;
           minY = foldl (\<lambda>m g. jmin m (jsub (g_y g) (jdiv (g_height g) (Fin 2)))) PInf G;
           maxY = foldl (\<lambda>m g. jmax m (jadd (g_y g) (jdiv (g_height g) (Fin 2)))) NInf G
       in map (\<lambda>g. g\<lparr> g_x := jsub (g_x g) (jdiv (jadd minX maxX) (Fin 2)),
                       g_y := jsub (g_y g) (jdiv (jadd minY maxY) (Fin 2)) \<rparr>) G)"
  using assms(1)
  by (simp add: computeCurvedTextLayout_def Let_def assms(2,3) foldl_jadd_Fin jge_def jle_def
      arcOf_def)


lemma arc_angles:
  assumes nn: "\<forall>w \<in> set ws. (0::real) \<le> w" and ne: "ws \<noteq> []" and sym: "hd ws = last ws"
  defines "p \<equiv> (if sum_list ws = 0 then 0 else pi / sum_list ws)"
  defines "ts \<equiv> centerAngles (- pi / 2) 0 (map (\<lambda>w. w * p) ws)"
  shows "ts \<noteq> []"
    and "cos (hd ts) = cos (last ts)"
    and "- (pi / 2) \<le> hd ts"
    and "last ts \<le> pi / 2"
    and "\<forall>t \<in> set ts. hd ts \<le> t \<and> t \<le> last ts"
proof -
  let ?as = "map (\<lambda>w. w * p) ws"
  have W: "0 \<le> sum_list ws" using nn by (simp add: sum_list_nonneg)
  have p0: "0 \<le> p" using W by (simp add: p_def)
  have ann: "\<forall>a \<in> set ?as. 0 \<le> a" using nn p0 by auto
  have ane: "?as \<noteq> []" using ne by simp
  have "sum_list ?as = sum_list ws * p"
    by (induction ws) (simp_all add: algebra_simps)
  then have sum: "sum_list ?as = (if sum_list ws = 0 then 0 else pi)"
    by (simp add: p_def)
  have hda: "hd ?as = hd ws * p" using ne by (simp add: hd_map)
  have lsa: "last ?as = hd ws * p" using ne sym by (simp add: last_map)
  have hd0: "0 \<le> hd ws" using nn ne by (cases ws) simp_all
  have a0: "0 \<le> hd ws * p" using hd0 p0 by simp
  have hd: "hd ts = - pi / 2 + hd ws * p / 2"
    using hd_centerAngles [OF ane, of "- pi / 2" 0] by (simp add: ts_def hda)
  have ls: "last ts = - pi / 2 + sum_list ?as - hd ws * p / 2"
    using last_centerAngles [OF ane, of "- pi / 2" 0] by (simp add: ts_def lsa)
  show "ts \<noteq> []" using ane by (simp add: ts_def)
  show "cos (hd ts) = cos (last ts)"
  proof (cases "sum_list ws = 0")
    case True
    then have "p = 0" by (simp add: p_def)
    then show ?thesis by (simp add: hd ls sum True)
  next
    case False
    then have "last ts = - hd ts" by (simp add: hd ls sum)
    then show ?thesis by simp
  qed
  show "- (pi / 2) \<le> hd ts" using a0 by (simp add: hd)
  have "sum_list ?as \<le> pi" by (simp add: sum)
  then show "last ts \<le> pi / 2" using a0 by (simp add: ls)
  show "\<forall>t \<in> set ts. hd ts \<le> t \<and> t \<le> last ts"
  proof
    fix t assume t: "t \<in> set ts"
    then have t': "t \<in> set (centerAngles (- pi / 2) 0 ?as)" by (simp add: ts_def)
    from centerAngles_lower [OF ann t'] have "hd ts \<le> t" by (simp add: hd hda)
    moreover from centerAngles_upper [OF ann t'] have "t \<le> last ts" by (simp add: ls lsa)
    ultimately show "hd ts \<le> t \<and> t \<le> last ts" by simp
  qed
qed


lemma length_charWidths [simp]: "length (charWidths ctx font fs ls t) = length t"
  by (simp add: charWidths_def)

text \<open>
  In exact arithmetic a half circle mirrors the first and the last glyph in the
  horizontal axis through the layout's centre, when their widths with spacing are the
  same. The doubles of the code satisfy these equations up to rounding only.
\<close>

lemma half_circle_symmetry:
  assumes ne: "t \<noteq> []"
    and W: "charWidths ctx (toCanvasFont weight (Fin fs) family) (Fin fs) ls t = map Fin ws"
    and H: "lastGlyphHeight ctx (toCanvasFont weight (Fin fs) family) (Fin fs) t = Fin h"
    and nn: "\<forall>w \<in> set ws. 0 \<le> w"
    and sym: "hd ws = last ws"
  shows "let gs = glyphs (computeCurvedTextLayout ctx t family (Fin fs) weight ls (Fin R) (Fin 180))
         in gs \<noteq> [] \<and> g_x (hd gs) = g_x (last gs) \<and> g_y (hd gs) = jneg (g_y (last gs))"
proof -
  define gs where
    "gs = glyphs (computeCurvedTextLayout ctx t family (Fin fs) weight ls (Fin R) (Fin 180))"
  define p where "p = (if sum_list ws = 0 then 0 else pi / sum_list ws)"
  define r where "r = max 1 \<bar>R\<bar> * (if 0 \<le> R then 1 else - 1)"
  define ts where "ts = centerAngles (- pi / 2) 0 (map (\<lambda>w. w * p) ws)"
  define G where "G = placeGlyphs (arcOf (length t) ls ws R h) 0 (Fin 0) (zip t (map Fin ws))"
  define cx where "cx = jdiv (jadd
      (foldl (\<lambda>m g. jmin m (jsub (g_x g) (jdiv (g_width g) (Fin 2)))) PInf G)
      (foldl (\<lambda>m g. jmax m (jadd (g_x g) (jdiv (g_width g) (Fin 2)))) NInf G)) (Fin 2)"
  define minY where "minY = foldl (\<lambda>m g. jmin m (jsub (g_y g) (jdiv (g_height g) (Fin 2)))) PInf G"
  define maxY where "maxY = foldl (\<lambda>m g. jmax m (jadd (g_y g) (jdiv (g_height g) (Fin 2)))) NInf G"
  have len: "length t = length ws"
    using arg_cong [OF W, of length] by simp
  have wne: "ws \<noteq> []" using ne len by auto
  have gs: "gs = map (\<lambda>g. g\<lparr> g_x := jsub (g_x g) cx,
                              g_y := jsub (g_y g) (jdiv (jadd minY maxY) (Fin 2)) \<rparr>) G"
    unfolding gs_def layout_finite [OF ne W H] G_def cx_def minY_def maxY_def Let_def ..
  have arc: "arc_pxToAngle (arcOf (length t) ls ws R h) = Fin p"
      "arc_startAngle (arcOf (length t) ls ws R h) = Fin (- pi / 2)"
      "arc_r (arcOf (length t) ls ws R h) = Fin r"
      "arc_glyphHeight (arcOf (length t) ls ws R h) = Fin h"
    by (simp_all add: arcOf_def p_def r_def)
  from placeGlyphs_Fin [OF arc(1,2,3) len, of 0 0]
  have gx: "map g_x G = map (\<lambda>a. Fin (r * cos a)) ts"
    and gy: "map g_y G = map (\<lambda>a. Fin (r * sin a)) ts"
    and gh: "\<forall>g \<in> set G. g_height g = Fin h"
    by (simp_all add: G_def ts_def arc(4))
  from arc_angles [OF nn wne sym]
  have tne: "ts \<noteq> []" and tcos: "cos (hd ts) = cos (last ts)"
    and tlo: "- (pi / 2) \<le> hd ts" and thi: "last ts \<le> pi / 2"
    and tbetween: "\<forall>a \<in> set ts. hd ts \<le> a \<and> a \<le> last ts"
    by (simp_all add: ts_def p_def)
  have Gne: "G \<noteq> []" using tne arg_cong [OF gx, of length] by auto
  have hdx: "g_x (hd G) = Fin (r * cos (hd ts))"
    using arg_cong [OF gx, of hd] Gne tne by (simp add: hd_map)
  have lastx: "g_x (last G) = Fin (r * cos (last ts))"
    using arg_cong [OF gx, of last] Gne tne by (simp add: last_map)
  have hdy: "g_y (hd G) = Fin (r * sin (hd ts))"
    using arg_cong [OF gy, of hd] Gne tne by (simp add: hd_map)
  have lasty: "g_y (last G) = Fin (r * sin (last ts))"
    using arg_cong [OF gy, of last] Gne tne by (simp add: last_map)
  define yf where "yf = r * sin (hd ts)"
  define yl where "yl = r * sin (last ts)"
  define yr where "yr g = (case g_y g of Fin y \<Rightarrow> y | _ \<Rightarrow> 0)" for g :: CurvedGlyph
  have yG: "\<forall>g \<in> set G. g_y g = Fin (yr g) \<and> min yf yl \<le> yr g \<and> yr g \<le> max yf yl"
  proof
    fix g assume "g \<in> set G"
    then have "g_y g \<in> set (map g_y G)" by simp
    then obtain a where a: "a \<in> set ts" "g_y g = Fin (r * sin a)"
      unfolding gy by auto
    from tbetween a(1) have b: "hd ts \<le> a" "a \<le> last ts" by simp_all
    have s1: "sin (hd ts) \<le> sin a"
      using tlo b thi by (intro sin_monotone_2pi_le) simp_all
    have s2: "sin a \<le> sin (last ts)"
      using tlo b thi by (intro sin_monotone_2pi_le) simp_all
    have "min yf yl \<le> r * sin a \<and> r * sin a \<le> max yf yl"
    proof (cases "0 \<le> r")
      case True
      from mult_left_mono [OF s1 True] mult_left_mono [OF s2 True]
      show ?thesis by (simp add: yf_def yl_def min_def max_def)
    next
      case False
      then have "r \<le> 0" by simp
      from mult_left_mono_neg [OF s1 this] mult_left_mono_neg [OF s2 this]
      show ?thesis by (simp add: yf_def yl_def min_def max_def)
    qed
    with a(2) show "g_y g = Fin (yr g) \<and> min yf yl \<le> yr g \<and> yr g \<le> max yf yl"
      by (simp add: yr_def)
  qed
  have hdG: "hd G \<in> set G" and lastG: "last G \<in> set G" using Gne by simp_all
  have yrhd: "yr (hd G) = yf" and yrlast: "yr (last G) = yl"
    by (simp_all add: yr_def hdy lasty yf_def yl_def)
  have fmin: "\<forall>g \<in> set G. jsub (g_y g) (jdiv (g_height g) (Fin 2)) = Fin (yr g - h / 2)"
    using yG gh by (simp add: jsub_def)
  have fmax: "\<forall>g \<in> set G. jadd (g_y g) (jdiv (g_height g) (Fin 2)) = Fin (yr g + h / 2)"
    using yG gh by simp
  from foldl_jmin_PInf [OF fmin Gne]
  obtain m where m: "minY = Fin m" "m \<in> (\<lambda>g. yr g - h / 2) ` set G"
      "\<forall>g \<in> set G. m \<le> yr g - h / 2"
    unfolding minY_def by blast
  from foldl_jmax_NInf [OF fmax Gne]
  obtain M where M: "maxY = Fin M" "M \<in> (\<lambda>g. yr g + h / 2) ` set G"
      "\<forall>g \<in> set G. yr g + h / 2 \<le> M"
    unfolding maxY_def by blast
  have "m = min yf yl - h / 2"
  proof -
    from m(3) hdG lastG yrhd yrlast have "m \<le> yf - h / 2" "m \<le> yl - h / 2" by auto
    moreover from m(2) yG have "min yf yl - h / 2 \<le> m" by auto
    ultimately show ?thesis by (simp add: min_def split: if_splits)
  qed
  moreover have "M = max yf yl + h / 2"
  proof -
    from M(3) hdG lastG yrhd yrlast have "yf + h / 2 \<le> M" "yl + h / 2 \<le> M" by auto
    moreover from M(2) yG have "M \<le> max yf yl + h / 2" by auto
    ultimately show ?thesis by (simp add: max_def split: if_splits)
  qed
  ultimately have "m + M = yf + yl" by (simp add: min_def max_def)
  then have cy: "jdiv (jadd minY maxY) (Fin 2) = Fin ((yf + yl) / 2)"
    by (simp add: m(1) M(1))
  have "gs \<noteq> []" using Gne by (simp add: gs)
  moreover have "g_x (hd gs) = g_x (last gs)"
    using Gne by (simp add: gs hd_map last_map hdx lastx tcos)
  moreover have "g_y (hd gs) = jneg (g_y (last gs))"
    using Gne
    by (simp add: gs hd_map last_map hdy lasty cy jsub_def yf_def [symmetric] yl_def [symmetric]
        field_simps)
  ultimately show ?thesis by (simp add: gs_def [symmetric])
qed


lemma example_widths:
  "charWidths None (toCanvasFont W400 (Fin 10) ''Inter'') (Fin 10) (Fin 0) ''abc''
     = map Fin [6, 6, 6]"
  by (simp add: charWidths_def measuredWidth_def FALLBACK_LETTER_WIDTH_RATIO_def enumerate_eq_zip
      upt_rec)

lemma example_height:
  "lastGlyphHeight None (toCanvasFont W400 (Fin 10) ''Inter'') (Fin 10) ''abc'' = Fin 10"
  by (simp add: lastGlyphHeight_def)

lemma example_raw:
  "placeGlyphs (arcOf (length ''abc'') (Fin 0) [6, 6, 6] 100 10) 0 (Fin 0)
     (zip ''abc'' (map Fin [6, 6, 6]))
   = [\<lparr> g_char = ''a'', g_x = Fin 50, g_y = Fin (- (50 * sqrt 3)), g_rotation = Fin 30,
         g_width = Fin 6, g_height = Fin 10 \<rparr>,
      \<lparr> g_char = ''b'', g_x = Fin 100, g_y = Fin 0, g_rotation = Fin 90,
         g_width = Fin 6, g_height = Fin 10 \<rparr>,
      \<lparr> g_char = ''c'', g_x = Fin 50, g_y = Fin (50 * sqrt 3), g_rotation = Fin 150,
         g_width = Fin 6, g_height = Fin 10 \<rparr>]"
  by (simp add: arcOf_def Let_def jsub_def jge_def jle_def cos_60 sin_60)


lemma example_layout:
  "glyphs (computeCurvedTextLayout None ''abc'' ''Inter'' (Fin 10) W400 (Fin 0) (Fin 100) (Fin 180))
   = [\<lparr> g_char = ''a'', g_x = Fin (- 25), g_y = Fin (- (50 * sqrt 3)), g_rotation = Fin 30,
         g_width = Fin 6, g_height = Fin 10 \<rparr>,
      \<lparr> g_char = ''b'', g_x = Fin 25, g_y = Fin 0, g_rotation = Fin 90,
         g_width = Fin 6, g_height = Fin 10 \<rparr>,
      \<lparr> g_char = ''c'', g_x = Fin (- 25), g_y = Fin (50 * sqrt 3), g_rotation = Fin 150,
         g_width = Fin 6, g_height = Fin 10 \<rparr>]"
proof -
  have s3: "0 < sqrt 3" by simp
  have ne: "(''abc'' :: string) \<noteq> []" by simp
  show ?thesis
    unfolding layout_finite [OF ne example_widths example_height] example_raw
    using s3 by (simp add: Let_def jsub_def min_def max_def)
qed

text \<open>
  C6. For an empty string \<^verbatim>\<open>computeCurvedTextLayout\<close> returns no glyph and a width and
  height of \<open>max(fontSize, 1)\<close>, whatever the radius and the angle. For every string it
  returns one glyph for each character, in the order of the string. Neither property
  depends on the arithmetic: the empty case returns before any is done, and the second
  loop adds one glyph at each character.
\<close>

theorem curved_layout_glyph_count:
  "computeCurvedTextLayout ctx [] family fsz weight ls rad ang
     = \<lparr> glyphs = [], layout_width = jmax fsz (Fin 1), layout_height = jmax fsz (Fin 1) \<rparr>
   \<and> length (glyphs (computeCurvedTextLayout ctx t family fsz weight ls rad ang)) = length t
   \<and> map g_char (glyphs (computeCurvedTextLayout ctx t family fsz weight ls rad ang))
       = map (\<lambda>c. [c]) t"
proof (intro conjI)
  show "computeCurvedTextLayout ctx [] family fsz weight ls rad ang
     = \<lparr> glyphs = [], layout_width = jmax fsz (Fin 1), layout_height = jmax fsz (Fin 1) \<rparr>"
    by (simp add: computeCurvedTextLayout_def Let_def)
  show "length (glyphs (computeCurvedTextLayout ctx t family fsz weight ls rad ang)) = length t"
    by (simp add: computeCurvedTextLayout_def Let_def length_placeGlyphs)
  have "map (\<lambda>cw. [fst cw]) (zip t ws) = map (\<lambda>c. [c]) t" if "length ws = length t"
    for ws :: "jsnum list"
    using that by (induction t ws rule: list_induct2') simp_all
  then show "map g_char (glyphs (computeCurvedTextLayout ctx t family fsz weight ls rad ang))
       = map (\<lambda>c. [c]) t"
    by (simp add: computeCurvedTextLayout_def Let_def comp_def chars_placeGlyphs)
qed

text \<open>
  With an angle of 180 degrees the glyph angles run from -90 to +90 degrees around the
  positive x axis, so the arc opens sideways. For the text \<open>abc\<close> at font size 10 without
  a measuring context and radius 100, the first and last glyphs have equal measured
  widths and sit at \<open>(-25, -50 * sqrt 3)\<close> and \<open>(-25, 50 * sqrt 3)\<close>: neither
  \<open>first.x = -last.x\<close> nor \<open>first.y = last.y\<close> holds. The doubles of the code differ from
  these values by rounding errors far smaller than the distances between them.
\<close>

theorem half_circle_arc_opens_sideways:
  "measuredWidth None (toCanvasFont W400 (Fin 10) ''Inter'') (Fin 10) (CHR ''a'')
     = measuredWidth None (toCanvasFont W400 (Fin 10) ''Inter'') (Fin 10) (CHR ''c'')
   \<and> g_x (hd (glyphs (computeCurvedTextLayout None ''abc'' ''Inter'' (Fin 10) W400 (Fin 0)
                (Fin 100) (Fin 180))))
     \<noteq> jneg (g_x (last (glyphs (computeCurvedTextLayout None ''abc'' ''Inter'' (Fin 10) W400
                (Fin 0) (Fin 100) (Fin 180)))))
   \<and> g_y (hd (glyphs (computeCurvedTextLayout None ''abc'' ''Inter'' (Fin 10) W400 (Fin 0)
                (Fin 100) (Fin 180))))
     \<noteq> g_y (last (glyphs (computeCurvedTextLayout None ''abc'' ''Inter'' (Fin 10) W400
                (Fin 0) (Fin 100) (Fin 180))))"
  unfolding example_layout by (simp add: measuredWidth_def)

end
